theory Spec2Isabelle
  imports Main "HOL-Library.AList"
begin

section \<open>Data model\<close>

text \<open>
  The Django models the resolver reads (\<^verbatim>\<open>api/environments/models.py\<close>,
  \<^verbatim>\<open>api/environments/identities/models.py\<close>), reduced to the fields the modelled
  methods touch. A foreign key that the code follows (\<^verbatim>\<open>environment.project.organisation\<close>)
  is a nested record; a foreign key that is only compared is the primary key of its
  target. Nullable columns are \<open>option\<close>s.
\<close>

record organisation =
  persist_trait_data :: bool

record project =
  project_organisation :: organisation
  project_hide_disabled_flags :: bool

record environment =
  env_id :: int
  env_name :: string
  api_key :: string
  env_project :: project
  allow_client_traits :: bool
  hide_disabled_flags :: "bool option"
  use_mv_v2_evaluation :: bool

record identity =
  identity_id :: int
  identity_identifier :: string
  identity_environment :: environment

text \<open>\<^verbatim>\<open>core.request_origin.RequestOrigin\<close>: the two members the code refers to.\<close>

datatype RequestOrigin = CLIENT | SERVER

text \<open>
  A request, as far as \<^verbatim>\<open>trait_persistence_allowed\<close> reads it: the attribute
  \<^verbatim>\<open>originated_from\<close> may be missing (\<open>None\<close>), which is what \<^verbatim>\<open>getattr\<close> with a
  default is there for.
\<close>

record request =
  originated_from :: "RequestOrigin option"

section \<open>Environment\<close>

text \<open>
  \<^verbatim>\<open>
  def trait_persistence_allowed(self, request: Request) -> bool:
      return (
          self.allow_client_traits
          or getattr(request, "originated_from", RequestOrigin.CLIENT)
          == RequestOrigin.SERVER
      )
  \<close>
\<close>

definition getattr_originated_from :: "request \<Rightarrow> RequestOrigin \<Rightarrow> RequestOrigin" where
  "getattr_originated_from req dflt =
     (case originated_from req of None \<Rightarrow> dflt | Some origin \<Rightarrow> origin)"

definition trait_persistence_allowed :: "environment \<Rightarrow> request \<Rightarrow> bool" where
  "trait_persistence_allowed self req =
     (allow_client_traits self \<or> getattr_originated_from req CLIENT = SERVER)"

text \<open>
  \<^verbatim>\<open>
  def get_hide_disabled_flags(self) -> bool:
      if self.hide_disabled_flags is not None:
          return self.hide_disabled_flags
      return self.project.hide_disabled_flags
  \<close>
\<close>

definition get_hide_disabled_flags :: "environment \<Rightarrow> bool" where
  "get_hide_disabled_flags self =
     (if hide_disabled_flags self \<noteq> None then the (hide_disabled_flags self)
      else project_hide_disabled_flags (env_project self))"

section \<open>Identity: hash key\<close>

text \<open>Python's \<^verbatim>\<open>str\<close> on an integer: decimal digits, a minus sign when negative.\<close>

definition digit_char :: "nat \<Rightarrow> char" where
  "digit_char d = char_of (48 + d)"

function str_nat :: "nat \<Rightarrow> string" where
  "str_nat n = (if n < 10 then [digit_char n] else str_nat (n div 10) @ [digit_char (n mod 10)])"
  by pat_completeness auto
termination
  by (relation "measure (\<lambda>n. n)") auto

declare str_nat.simps [simp del]

definition str_int :: "int \<Rightarrow> string" where
  "str_int i = (if i < 0 then CHR ''-'' # str_nat (nat (- i)) else str_nat (nat i))"

text \<open>
  \<^verbatim>\<open>
  @property
  def composite_key(self):
      return f"{self.environment.api_key}_{self.identifier}"

  def get_hash_key(self, use_mv_v2_evaluation: bool = False) -> str:
      return self.composite_key if use_mv_v2_evaluation else str(self.id)
  \<close>
\<close>

definition composite_key :: "identity \<Rightarrow> string" where
  "composite_key self = api_key (identity_environment self) @ ''_'' @ identity_identifier self"

definition get_hash_key :: "identity \<Rightarrow> bool \<Rightarrow> string" where
  "get_hash_key self use_v2 = (if use_v2 then composite_key self else str_int (identity_id self))"

section \<open>Feature states\<close>

text \<open>
  \<^verbatim>\<open>segments.models.Segment\<close>, \<^verbatim>\<open>features.models.FeatureSegment\<close> and
  \<^verbatim>\<open>features.models.FeatureState\<close> as the query and the loop of
  \<^verbatim>\<open>Identity.get_all_feature_states\<close> read them. A segment's rule tree is only looked at
  by \<^verbatim>\<open>Segment.does_identity_match\<close>, which the resolver receives as a function.
  \<^verbatim>\<open>select_related("feature_segment")\<close> joins the feature segment into the row, so it
  is nested here. Timestamps are integers.
\<close>

record segment =
  segment_id :: int

record feature_segment =
  fseg_id :: int
  fseg_segment :: int
  fseg_environment :: int
  fseg_feature :: int
  priority :: int

record feature_state =
  fs_id :: int
  feature_id :: int
  fs_environment :: int
  fs_identity :: "int option"
  feature_segment :: "feature_segment option"
  enabled :: bool
  live_from :: "int option"
  version :: "int option"

text \<open>
  \<^verbatim>\<open>
  def get_segments(self, traits=None, overrides_only=False):
      traits = self.identity_traits.all() if traits is None else traits
      if overrides_only:
          all_segments = self.environment.get_segments_from_cache()
      else:
          all_segments = self.environment.project.get_segments_from_cache()
      return [
          segment
          for segment in all_segments
          if segment.does_identity_match(self, traits=traits)
      ]
  \<close>
  The two cached segment lists and the identity's stored traits are read from
  collaborators; they are arguments here.
\<close>

definition get_segments ::
  "(segment \<Rightarrow> identity \<Rightarrow> 't list \<Rightarrow> bool) \<Rightarrow> segment list \<Rightarrow> segment list \<Rightarrow> 't list \<Rightarrow>
   identity \<Rightarrow> 't list option \<Rightarrow> bool \<Rightarrow> segment list" where
  "get_segments does_identity_match environment_segments project_segments identity_traits
       self traits overrides_only =
     (let traits' = (case traits of None \<Rightarrow> identity_traits | Some ts \<Rightarrow> ts);
          all_segments = (if overrides_only then environment_segments else project_segments)
      in filter (\<lambda>segment. does_identity_match segment self traits') all_segments)"

text \<open>
  The sub-queries of \<^verbatim>\<open>get_all_feature_states\<close>, each a predicate on a row. A lookup
  through a null foreign key matches nothing, and \<^verbatim>\<open>live_from__lte\<close> on a null
  \<^verbatim>\<open>live_from\<close> matches nothing.
  \<^verbatim>\<open>
  belongs_to_environment_query = Q(environment=self.environment)
  overridden_for_identity_query = Q(identity=self)
  overridden_for_segment_query = Q(
      feature_segment__segment__in=segments,
      feature_segment__environment=self.environment,
  )
  environment_default_query = Q(identity=None, feature_segment=None)
  only_live_versions_query = Q(
      live_from__lte=timezone.now(), version__isnull=False
  )
  \<close>
\<close>

definition belongs_to_environment_query :: "identity \<Rightarrow> feature_state \<Rightarrow> bool" where
  "belongs_to_environment_query self row = (fs_environment row = env_id (identity_environment self))"

definition overridden_for_identity_query :: "identity \<Rightarrow> feature_state \<Rightarrow> bool" where
  "overridden_for_identity_query self row = (fs_identity row = Some (identity_id self))"

definition overridden_for_segment_query :: "identity \<Rightarrow> segment list \<Rightarrow> feature_state \<Rightarrow> bool" where
  "overridden_for_segment_query self segments row =
     (case feature_segment row of
        None \<Rightarrow> False
      | Some fseg \<Rightarrow> fseg_segment fseg \<in> set (map segment_id segments)
                   \<and> fseg_environment fseg = env_id (identity_environment self))"

definition environment_default_query :: "feature_state \<Rightarrow> bool" where
  "environment_default_query row = (fs_identity row = None \<and> feature_segment row = None)"

definition only_live_versions_query :: "int \<Rightarrow> feature_state \<Rightarrow> bool" where
  "only_live_versions_query now row =
     ((case live_from row of None \<Rightarrow> False | Some t \<Rightarrow> t \<le> now) \<and> version row \<noteq> None)"

text \<open>
  \<^verbatim>\<open>
  full_query = (
      only_live_versions_query
      & belongs_to_environment_query
      & (overridden_for_identity_query
         | overridden_for_segment_query
         | environment_default_query)
  )
  if additional_filters:
      full_query &= additional_filters
  \<close>
  \<^verbatim>\<open>additional_filters\<close> is an optional \<^verbatim>\<open>Q\<close> object, a predicate on rows; an
  empty \<^verbatim>\<open>Q()\<close> is falsy and counts as \<open>None\<close>.
\<close>

definition full_query ::
  "identity \<Rightarrow> segment list \<Rightarrow> int \<Rightarrow> (feature_state \<Rightarrow> bool) option \<Rightarrow> feature_state \<Rightarrow> bool" where
  "full_query self segments now additional_filters row =
     (let base = (only_live_versions_query now row
                  \<and> belongs_to_environment_query self row
                  \<and> (overridden_for_identity_query self row
                       \<or> overridden_for_segment_query self segments row
                       \<or> environment_default_query row))
      in case additional_filters of None \<Rightarrow> base | Some q \<Rightarrow> base \<and> q row)"

text \<open>
  \<^verbatim>\<open>all_flags = FeatureState.objects. ... .filter(full_query)\<close>: the rows of the table
  that satisfy the query, in the order the database returns them.
\<close>

definition all_flags ::
  "feature_state list \<Rightarrow> identity \<Rightarrow> segment list \<Rightarrow> int \<Rightarrow> (feature_state \<Rightarrow> bool) option \<Rightarrow>
   feature_state list" where
  "all_flags table self segments now additional_filters =
     filter (full_query self segments now additional_filters) table"

text \<open>
  Modelled from the spec: \<^verbatim>\<open>FeatureState.__gt__\<close> (\<^verbatim>\<open>features/models.py\<close>), the
  comparison behind \<^verbatim>\<open>flag > current_flag\<close>, is not among the sources. The spec
  (4.5, state comparison): a total order with identity-override highest, then
  segment-override ranked by ascending FeatureSegment priority (lower wins) then
  descending FeatureSegment id as tie-break, then environment-default lowest. A row
  with both an identity and a feature segment ranks as an identity-override (spec 7).
  Two states of the same tier and, for segment overrides, of the same feature segment
  compare equal.
\<close>

definition feature_state_gt :: "feature_state \<Rightarrow> feature_state \<Rightarrow> bool" where
  "feature_state_gt a b =
     (case fs_identity a of
        Some _ \<Rightarrow> fs_identity b = None
      | None \<Rightarrow>
          (case feature_segment a of
             None \<Rightarrow> False
           | Some sa \<Rightarrow>
               fs_identity b = None \<and>
               (case feature_segment b of
                  None \<Rightarrow> True
                | Some sb \<Rightarrow> priority sa < priority sb
                            \<or> (priority sa = priority sb \<and> fseg_id sb < fseg_id sa))))"

text \<open>
  The loop that keeps, per feature, the highest-priority flag. A Python dictionary keeps
  its keys in insertion order and an assignment to an existing key keeps the key's place:
  an association list with \<^const>\<open>AList.update\<close>.
  \<^verbatim>\<open>
  identity_flags = {}
  for flag in all_flags:
      if flag.feature_id not in identity_flags:
          identity_flags[flag.feature_id] = flag
      else:
          current_flag = identity_flags[flag.feature_id]
          if flag > current_flag:
              identity_flags[flag.feature_id] = flag
  \<close>
\<close>

fun build_identity_flags ::
  "feature_state list \<Rightarrow> (int \<times> feature_state) list \<Rightarrow> (int \<times> feature_state) list" where
  "build_identity_flags [] identity_flags = identity_flags"
| "build_identity_flags (flag # rest) identity_flags =
     (case map_of identity_flags (feature_id flag) of
        None \<Rightarrow> build_identity_flags rest (AList.update (feature_id flag) flag identity_flags)
      | Some current_flag \<Rightarrow>
          (if feature_state_gt flag current_flag
           then build_identity_flags rest (AList.update (feature_id flag) flag identity_flags)
           else build_identity_flags rest identity_flags))"

text \<open>
  \<^verbatim>\<open>
  if self.environment.get_hide_disabled_flags() is True:
      return [value for value in identity_flags.values() if value.enabled]
  return list(identity_flags.values())
  \<close>
\<close>

definition hide_or_all :: "environment \<Rightarrow> (int \<times> feature_state) list \<Rightarrow> feature_state list" where
  "hide_or_all env identity_flags =
     (if get_hide_disabled_flags env = True
      then filter enabled (map snd identity_flags)
      else map snd identity_flags)"

text \<open>
  \<^verbatim>\<open>Identity.get_all_feature_states(self, traits=None, additional_filters=None)\<close>,
  with what it reads from outside as arguments: the segment matcher, the environment's
  cached override segments, the identity's stored traits, the clock and the
  \<^verbatim>\<open>FeatureState\<close> table. It calls \<^verbatim>\<open>get_segments\<close> with
  \<^verbatim>\<open>overrides_only=True\<close>, which never reads the project's segments.
\<close>

definition get_all_feature_states ::
  "(segment \<Rightarrow> identity \<Rightarrow> 't list \<Rightarrow> bool) \<Rightarrow> segment list \<Rightarrow> 't list \<Rightarrow> int \<Rightarrow> feature_state list \<Rightarrow>
   identity \<Rightarrow> 't list option \<Rightarrow> (feature_state \<Rightarrow> bool) option \<Rightarrow> feature_state list" where
  "get_all_feature_states does_identity_match environment_segments identity_traits now table
       self traits additional_filters =
     (let segments = get_segments does_identity_match environment_segments [] identity_traits
                       self traits True;
          flags = all_flags table self segments now additional_filters;
          identity_flags = build_identity_flags flags []
      in hide_or_all (identity_environment self) identity_flags)"

subsection \<open>The loop invariant of the priority resolver\<close>

text \<open>
  After the loop has seen the flags in \<open>S\<close>, the dictionary holds, for every feature with
  a flag in \<open>S\<close>, a flag of \<open>S\<close> for that feature which no flag of \<open>S\<close> for the same
  feature outranks.
\<close>

definition best_so_far :: "feature_state set \<Rightarrow> (int \<times> feature_state) list \<Rightarrow> bool" where
  "best_so_far S identity_flags \<longleftrightarrow>
     (\<forall>k v. map_of identity_flags k = Some v \<longrightarrow>
        feature_id v = k \<and> v \<in> S \<and> (\<forall>c\<in>S. feature_id c = k \<longrightarrow> \<not> feature_state_gt c v))
     \<and> (\<forall>c\<in>S. map_of identity_flags (feature_id c) \<noteq> None)"

text \<open>
  The same invariant with the order of the rows: the flag kept for a feature outranks
  every flag of the feature that the loop saw before it, and none that it saw after it
  outranks it.
\<close>

definition first_best :: "feature_state list \<Rightarrow> (int \<times> feature_state) list \<Rightarrow> bool" where
  "first_best seen identity_flags \<longleftrightarrow>
     (\<forall>k v. map_of identity_flags k = Some v \<longrightarrow>
        feature_id v = k \<and>
        (\<exists>pre post. seen = pre @ v # post
           \<and> (\<forall>c\<in>set pre. feature_id c = k \<longrightarrow> feature_state_gt v c)
           \<and> (\<forall>c\<in>set post. feature_id c = k \<longrightarrow> \<not> feature_state_gt c v)))
     \<and> (\<forall>c\<in>set seen. map_of identity_flags (feature_id c) \<noteq> None)"

section \<open>Traits\<close>

text \<open>
  The \<^verbatim>\<open>Trait\<close> model (\<^verbatim>\<open>environments/identities/traits/models.py\<close>) is not among
  the sources; the methods of \<^verbatim>\<open>Identity\<close> use three things of it, which they take as
  a parameter here: \<^verbatim>\<open>Trait.generate_trait_value_data(value)\<close>, a dictionary from
  attribute names to values; the test \<^verbatim>\<open>current_trait.trait_value == trait_value\<close>;
  and the constant \<^verbatim>\<open>Trait.BULK_UPDATE_FIELDS\<close>. A trait object is its attribute
  dictionary; \<^verbatim>\<open>trait_key\<close> is unique per identity, so the stored traits of one
  identity are a map from key to trait. An incoming trait data item is a pair of
  \<^verbatim>\<open>trait_key\<close> and \<^verbatim>\<open>trait_value\<close>, the value \<open>None\<close> for a JSON null.
\<close>

type_synonym 'a attrs = "string \<rightharpoonup> 'a"

type_synonym 'a trait_store = "string \<rightharpoonup> 'a attrs"

type_synonym 'v trait_data_item = "string \<times> 'v option"

record ('v, 'a) Trait =
  generate_trait_value_data :: "'v \<Rightarrow> 'a attrs"
  trait_value_eq :: "'a attrs \<Rightarrow> 'v \<Rightarrow> bool"
  BULK_UPDATE_FIELDS :: "string list"

datatype db_error = IntegrityError

text \<open>
  \<^verbatim>\<open>Trait.objects.bulk_create(trait_models)\<close>: a key that is already stored violates
  the unique constraint and the statement raises.
\<close>

fun bulk_create :: "(string \<times> 'a attrs) list \<Rightarrow> 'a trait_store \<Rightarrow> db_error + 'a trait_store" where
  "bulk_create [] store = Inr store"
| "bulk_create ((k, t) # rest) store =
     (if store k \<noteq> None then Inl IntegrityError else bulk_create rest (store(k \<mapsto> t)))"

text \<open>
  \<^verbatim>\<open>
  def generate_traits(self, trait_data_items, persist=False):
      trait_models = []
      # Remove traits having Null(None) values
      trait_data_items = filter(
          lambda trait: trait["trait_value"] is not None, trait_data_items
      )
      for trait_data_item in trait_data_items:
          trait_key = trait_data_item["trait_key"]
          trait_value = trait_data_item["trait_value"]
          trait_models.append(
              Trait(trait_key=trait_key, identity=self,
                    **Trait.generate_trait_value_data(trait_value))
          )
      if persist:
          Trait.objects.bulk_create(trait_models)
      return trait_models
  \<close>
  The result is the stored traits afterwards and the returned list.
\<close>

fun build_trait_models :: "('v, 'a) Trait \<Rightarrow> (string \<times> 'v) list \<Rightarrow> (string \<times> 'a attrs) list" where
  "build_trait_models T [] = []"
| "build_trait_models T ((trait_key, trait_value) # rest) =
     (trait_key, generate_trait_value_data T trait_value) # build_trait_models T rest"

fun remove_null_values :: "'v trait_data_item list \<Rightarrow> (string \<times> 'v) list" where
  "remove_null_values [] = []"
| "remove_null_values ((trait_key, None) # rest) = remove_null_values rest"
| "remove_null_values ((trait_key, Some v) # rest) = (trait_key, v) # remove_null_values rest"

definition generate_traits ::
  "('v, 'a) Trait \<Rightarrow> 'a trait_store \<Rightarrow> 'v trait_data_item list \<Rightarrow> bool \<Rightarrow>
   db_error + ('a trait_store \<times> (string \<times> 'a attrs) list)" where
  "generate_traits T store trait_data_items persist =
     (let trait_models = build_trait_models T (remove_null_values trait_data_items)
      in if persist
         then (case bulk_create trait_models store of
                 Inl e \<Rightarrow> Inl e
               | Inr store' \<Rightarrow> Inr (store', trait_models))
         else Inr (store, trait_models))"

text \<open>
  The loop of \<^verbatim>\<open>update_traits\<close>, its body as a step on the four variables it
  changes. \<^verbatim>\<open>current_traits\<close> holds the trait objects, which
  the loop mutates through \<^verbatim>\<open>setattr\<close>; \<^verbatim>\<open>updated_traits\<close> holds references to those
  same objects, so it is a list of their keys.
  \<^verbatim>\<open>
  for trait_data_item in trait_data_items:
      trait_key = trait_data_item["trait_key"]
      trait_value = trait_data_item["trait_value"]
      if trait_value is None:
          keys_to_delete.append(trait_key)
          continue
      trait_value_data = Trait.generate_trait_value_data(trait_value)
      if trait_key in current_traits:
          current_trait = current_traits[trait_key]
          # Don't update the trait if the value hasn't changed
          if current_trait.trait_value == trait_value:
              continue
          for attr, value in trait_value_data.items():
              setattr(current_trait, attr, value)
          updated_traits.append(current_trait)
      else:
          new_traits.append(
              Trait(**trait_value_data, trait_key=trait_key, identity=self)
          )
  \<close>
\<close>

record ('a) merge_state =
  current_traits :: "'a trait_store"
  keys_to_delete :: "string list"
  new_traits :: "(string \<times> 'a attrs) list"
  updated_traits :: "string list"

fun update_traits_step ::
  "('v, 'a) Trait \<Rightarrow> 'v trait_data_item \<Rightarrow> 'a merge_state \<Rightarrow> 'a merge_state" where
  "update_traits_step T (trait_key, None) st =
     st\<lparr>keys_to_delete := keys_to_delete st @ [trait_key]\<rparr>"
| "update_traits_step T (trait_key, Some trait_value) st =
     (let trait_value_data = generate_trait_value_data T trait_value
      in case current_traits st trait_key of
           Some current_trait \<Rightarrow>
             (if trait_value_eq T current_trait trait_value
              then st
              else st\<lparr>current_traits := (current_traits st)(trait_key \<mapsto> current_trait ++ trait_value_data),
                      updated_traits := updated_traits st @ [trait_key]\<rparr>)
         | None \<Rightarrow>
             st\<lparr>new_traits := new_traits st @ [(trait_key, trait_value_data)]\<rparr>)"

fun update_traits_loop ::
  "('v, 'a) Trait \<Rightarrow> 'v trait_data_item list \<Rightarrow> 'a merge_state \<Rightarrow> 'a merge_state" where
  "update_traits_loop T [] st = st"
| "update_traits_loop T (trait_data_item # rest) st =
     update_traits_loop T rest (update_traits_step T trait_data_item st)"

text \<open>
  \<^verbatim>\<open>self.identity_traits.filter(trait_key__in=keys_to_delete).delete()\<close>, which the
  code skips when the list is empty.
\<close>

definition delete_keys :: "string list \<Rightarrow> 'a trait_store \<Rightarrow> 'a trait_store" where
  "delete_keys keys store =
     (if keys \<noteq> [] then (\<lambda>k. if k \<in> set keys then None else store k) else store)"

text \<open>
  \<^verbatim>\<open>Trait.objects.bulk_update(updated_traits, fields=Trait.BULK_UPDATE_FIELDS)\<close>: for each
  object, the row with its primary key gets the object's values of the listed fields; a
  row that is gone is not brought back.
\<close>

definition write_fields :: "string list \<Rightarrow> 'a attrs \<Rightarrow> 'a attrs \<Rightarrow> 'a attrs" where
  "write_fields fs obj row = (\<lambda>f. if f \<in> set fs then obj f else row f)"

definition update_row :: "string list \<Rightarrow> 'a trait_store \<Rightarrow> string \<Rightarrow> 'a trait_store \<Rightarrow> 'a trait_store" where
  "update_row fs objs k store =
     (case objs k of
        None \<Rightarrow> store
      | Some obj \<Rightarrow> (case store k of
                      None \<Rightarrow> store
                    | Some row \<Rightarrow> store(k \<mapsto> write_fields fs obj row)))"

fun bulk_update ::
  "string list \<Rightarrow> 'a trait_store \<Rightarrow> string list \<Rightarrow> 'a trait_store \<Rightarrow> 'a trait_store" where
  "bulk_update fs objs [] store = store"
| "bulk_update fs objs (k # rest) store = bulk_update fs objs rest (update_row fs objs k store)"

text \<open>
  \<^verbatim>\<open>Trait.objects.bulk_create(new_traits, ignore_conflicts=True)\<close>: a trait whose key
  is already stored is skipped.
\<close>

fun bulk_create_ignore_conflicts ::
  "(string \<times> 'a attrs) list \<Rightarrow> 'a trait_store \<Rightarrow> 'a trait_store" where
  "bulk_create_ignore_conflicts [] store = store"
| "bulk_create_ignore_conflicts ((k, t) # rest) store =
     (if store k \<noteq> None then bulk_create_ignore_conflicts rest store
      else bulk_create_ignore_conflicts rest (store(k \<mapsto> t)))"

text \<open>
  \<^verbatim>\<open>
  def update_traits(self, trait_data_items):
      current_traits = {t.trait_key: t for t in self.identity_traits.all()}
      keys_to_delete = []
      new_traits = []
      updated_traits = []
      for trait_data_item in trait_data_items: ...
      if keys_to_delete:
          self.identity_traits.filter(trait_key__in=keys_to_delete).delete()
      Trait.objects.bulk_update(updated_traits, fields=Trait.BULK_UPDATE_FIELDS)
      Trait.objects.bulk_create(new_traits, ignore_conflicts=True)
      return self.identity_traits.all()
  \<close>
  The result is the stored traits afterwards and the returned traits.
\<close>

definition update_traits ::
  "('v, 'a) Trait \<Rightarrow> 'a trait_store \<Rightarrow> 'v trait_data_item list \<Rightarrow> 'a trait_store \<times> 'a trait_store" where
  "update_traits T store trait_data_items =
     (let st = update_traits_loop T trait_data_items
                 \<lparr>current_traits = store, keys_to_delete = [], new_traits = [], updated_traits = []\<rparr>;
          store1 = delete_keys (keys_to_delete st) store;
          store2 = bulk_update (BULK_UPDATE_FIELDS T) (current_traits st) (updated_traits st) store1;
          store3 = bulk_create_ignore_conflicts (new_traits st) store2
      in (store3, store3))"

section \<open>Cloning an environment\<close>

text \<open>
  The tables \<^verbatim>\<open>Environment.clone\<close> reads and writes, rows in insertion order. A new
  row gets the next primary key of its table.
\<close>

record db =
  environments :: "environment list"
  feature_segments :: "feature_segment list"
  feature_states :: "feature_state list"

definition next_id :: "int list \<Rightarrow> int" where
  "next_id ids = fold max ids 0 + 1"

text \<open>
  Modelled from the spec: \<^verbatim>\<open>FeatureSegment.clone\<close> and \<^verbatim>\<open>FeatureState.clone\<close>
  (\<^verbatim>\<open>features/models.py\<close>) are not among the sources. The spec (3, lifecycle) says
  that feature states are cloned when an environment is cloned: the clone is a new row,
  a copy of the original that belongs to the environment it is given;
  \<^verbatim>\<open>FeatureState.clone\<close> also takes the \<^verbatim>\<open>live_from\<close> of the new row. The spec
  does not say what becomes of a cloned state's reference to its feature segment; the
  copy keeps it.
\<close>

definition FeatureSegment_clone :: "feature_segment \<Rightarrow> environment \<Rightarrow> db \<Rightarrow> db" where
  "FeatureSegment_clone self env d =
     d\<lparr>feature_segments := feature_segments d @
          [self\<lparr>fseg_id := next_id (map fseg_id (feature_segments d)),
                fseg_environment := env_id env\<rparr>]\<rparr>"

definition FeatureState_clone :: "feature_state \<Rightarrow> environment \<Rightarrow> int option \<Rightarrow> db \<Rightarrow> db" where
  "FeatureState_clone self env new_live_from d =
     d\<lparr>feature_states := feature_states d @
          [self\<lparr>fs_id := next_id (map fs_id (feature_states d)),
                fs_environment := env_id env,
                live_from := new_live_from\<rparr>]\<rparr>"

text \<open>
  \<^verbatim>\<open>
  def clone(self, name: str, api_key: str = None) -> "Environment":
      clone = deepcopy(self)
      clone.id = None
      clone.name = name
      clone.api_key = api_key if api_key else create_hash()
      clone.save()
      for feature_segment in self.feature_segments.all():
          feature_segment.clone(clone)

      # Since identities are closely tied to the enviroment
      # it does not make much sense to clone them, hence
      # only clone feature states without identities
      for feature_state in self.feature_states.filter(identity=None):
          feature_state.clone(clone, live_from=feature_state.live_from)

      return clone
  \<close>
  \<^verbatim>\<open>create_hash()\<close> draws a random key; the key it returns is the argument
  \<open>hash\<close>. An empty \<^verbatim>\<open>api_key\<close> is falsy, like \<^verbatim>\<open>None\<close>. The column
  \<^verbatim>\<open>api_key\<close> is declared \<^verbatim>\<open>unique=True\<close>: when another row of the table has the
  key, \<^verbatim>\<open>clone.save()\<close> raises \<^verbatim>\<open>IntegrityError\<close> and nothing after it runs.
\<close>

fun clone_feature_segments :: "feature_segment list \<Rightarrow> environment \<Rightarrow> db \<Rightarrow> db" where
  "clone_feature_segments [] cloned d = d"
| "clone_feature_segments (fseg # rest) cloned d =
     clone_feature_segments rest cloned (FeatureSegment_clone fseg cloned d)"

fun clone_feature_states :: "feature_state list \<Rightarrow> environment \<Rightarrow> db \<Rightarrow> db" where
  "clone_feature_states [] cloned d = d"
| "clone_feature_states (fs # rest) cloned d =
     clone_feature_states rest cloned (FeatureState_clone fs cloned (live_from fs) d)"

definition clone ::
  "environment \<Rightarrow> string \<Rightarrow> string option \<Rightarrow> string \<Rightarrow> db \<Rightarrow> db_error + (environment \<times> db)" where
  "clone self name api_key_arg hash d =
     (let cloned = self\<lparr>env_id := next_id (map env_id (environments d)),
                        env_name := name,
                        api_key := (case api_key_arg of
                                      None \<Rightarrow> hash
                                    | Some k \<Rightarrow> if k \<noteq> [] then k else hash)\<rparr>
      in if api_key cloned \<in> set (map api_key (environments d))
         then Inl IntegrityError
         else
           (let d1 = d\<lparr>environments := environments d @ [cloned]\<rparr>;
                d2 = clone_feature_segments
                       (filter (\<lambda>fseg. fseg_environment fseg = env_id self) (feature_segments d1))
                       cloned d1;
                d3 = clone_feature_states
                       (filter (\<lambda>fs. fs_environment fs = env_id self \<and> fs_identity fs = None)
                          (feature_states d2)) cloned d2
            in Inr (cloned, d3)))"

section \<open>Trait persistence at the API boundary\<close>

text \<open>
  \<^verbatim>\<open>
  class TraitPersistencePermissions(BasePermission):
      message = "Organisation is not authorised to store traits."

      def has_permission(self, request, view):
          return request.environment.project.organisation.persist_trait_data

      def has_object_permission(self, request, view, obj):
          return False
  \<close>
  The framework answers a refused permission with a 403 that carries the message.
\<close>

definition TraitPersistencePermissions_message :: string where
  "TraitPersistencePermissions_message = ''Organisation is not authorised to store traits.''"


definition TraitPersistencePermissions_has_object_permission :: "environment \<Rightarrow> 'obj \<Rightarrow> bool" where
  "TraitPersistencePermissions_has_object_permission request_environment obj = False"





section \<open>Example data\<close>

text \<open>
  One project with two environments that differ in \<^verbatim>\<open>hide_disabled_flags\<close>, an identity
  in each, a segment, and the three kinds of feature state for feature 10: the
  environment default (disabled), a segment override with priority 2 and an identity
  override.
\<close>

definition ex_project :: project where
  "ex_project = \<lparr>project_organisation = \<lparr>persist_trait_data = True\<rparr>,
                  project_hide_disabled_flags = False\<rparr>"

definition ex_environment :: environment where
  "ex_environment = \<lparr>env_id = 1, env_name = ''Test'', api_key = ''abc'', env_project = ex_project,
                      allow_client_traits = True, hide_disabled_flags = None,
                      use_mv_v2_evaluation = True\<rparr>"

definition ex_hiding_environment :: environment where
  "ex_hiding_environment = ex_environment\<lparr>hide_disabled_flags := Some True\<rparr>"

definition ex_identity :: identity where
  "ex_identity = \<lparr>identity_id = 7, identity_identifier = ''user1'',
                   identity_environment = ex_environment\<rparr>"

definition ex_hiding_identity :: identity where
  "ex_hiding_identity = ex_identity\<lparr>identity_environment := ex_hiding_environment\<rparr>"

definition ex_segment :: segment where
  "ex_segment = \<lparr>segment_id = 5\<rparr>"

definition match_all :: "segment \<Rightarrow> identity \<Rightarrow> string list \<Rightarrow> bool" where
  "match_all s i ts = True"

definition ex_default :: feature_state where
  "ex_default = \<lparr>fs_id = 1, feature_id = 10, fs_environment = 1, fs_identity = None,
                  feature_segment = None, enabled = False, live_from = Some 0, version = Some 1\<rparr>"

definition ex_feature_segment :: feature_segment where
  "ex_feature_segment = \<lparr>fseg_id = 3, fseg_segment = 5, fseg_environment = 1, fseg_feature = 10,
                          priority = 2\<rparr>"

definition ex_segment_override :: feature_state where
  "ex_segment_override = \<lparr>fs_id = 2, feature_id = 10, fs_environment = 1, fs_identity = None,
                           feature_segment = Some ex_feature_segment, enabled = True,
                           live_from = Some 0, version = Some 1\<rparr>"

definition ex_identity_override :: feature_state where
  "ex_identity_override = \<lparr>fs_id = 3, feature_id = 10, fs_environment = 1, fs_identity = Some 7,
                            feature_segment = None, enabled = True, live_from = Some 0,
                            version = Some 1\<rparr>"

definition ex_table :: "feature_state list" where
  "ex_table = [ex_default, ex_segment_override, ex_identity_override]"

text \<open>A second live version of the environment default of feature 10, enabled.\<close>

definition ex_default_v2 :: feature_state where
  "ex_default_v2 = ex_default\<lparr>fs_id := 4, enabled := True, version := Some 2\<rparr>"

text \<open>
  The environment default of a second feature, enabled, and an additional filter as a
  view passes it to restrict the result to one feature.
\<close>

definition ex_other_default :: feature_state where
  "ex_other_default = ex_default\<lparr>fs_id := 5, feature_id := 11, enabled := True\<rparr>"

definition only_feature_11 :: "feature_state \<Rightarrow> bool" where
  "only_feature_11 row = (feature_id row = 11)"

text \<open>
  A \<^verbatim>\<open>Trait\<close> class for string values, and an identity with the stored traits
  \<^verbatim>\<open>a\<close> and \<^verbatim>\<open>b\<close>.
\<close>

definition ex_generate_trait_value_data :: "string \<Rightarrow> string attrs" where
  "ex_generate_trait_value_data v = [''value_type'' \<mapsto> ''unicode'', ''string_value'' \<mapsto> v]"

definition ex_trait_value_eq :: "string attrs \<Rightarrow> string \<Rightarrow> bool" where
  "ex_trait_value_eq t v = (t ''string_value'' = Some v)"

definition ex_Trait :: "(string, string) Trait" where
  "ex_Trait = \<lparr>generate_trait_value_data = ex_generate_trait_value_data,
                trait_value_eq = ex_trait_value_eq,
                BULK_UPDATE_FIELDS = [''value_type'', ''string_value'']\<rparr>"

definition ex_store :: "string trait_store" where
  "ex_store = [''a'' \<mapsto> ex_generate_trait_value_data ''1'',
               ''b'' \<mapsto> ex_generate_trait_value_data ''2'']"

text \<open>The tables with the example environment, its feature segment and its feature states.\<close>

definition ex_db :: db where
  "ex_db = \<lparr>environments = [ex_environment], feature_segments = [ex_feature_segment],
             feature_states = ex_table\<rparr>"




section \<open>Properties: trait persistence and hash key\<close>

lemmas ex_defs = ex_project_def ex_environment_def ex_hiding_environment_def ex_identity_def
  ex_hiding_identity_def ex_segment_def match_all_def ex_default_def ex_feature_segment_def
  ex_segment_override_def ex_identity_override_def ex_table_def

lemmas query_defs = get_all_feature_states_def get_segments_def all_flags_def full_query_def
  only_live_versions_query_def belongs_to_environment_query_def overridden_for_identity_query_def
  overridden_for_segment_query_def environment_default_query_def hide_or_all_def
  get_hide_disabled_flags_def feature_state_gt_def

text \<open>
  C10. \<^verbatim>\<open>trait_persistence_allowed\<close> returns true for every request that originated
  from the server, whatever \<^verbatim>\<open>allow_client_traits\<close> is, and it returns false exactly
  when \<^verbatim>\<open>allow_client_traits\<close> is false and the request did not originate from the
  server (a request without the attribute counts as a client request).
\<close>

theorem trait_persistence_allowed_server:
  "(originated_from req = Some SERVER \<longrightarrow> trait_persistence_allowed env req)
   \<and> (\<not> trait_persistence_allowed env req \<longleftrightarrow>
        (\<not> allow_client_traits env \<and> originated_from req \<noteq> Some SERVER))"
proof (cases "originated_from req")
  case None
  then show ?thesis
    by (simp add: trait_persistence_allowed_def getattr_originated_from_def)
next
  case (Some origin)
  then show ?thesis
    by (cases origin) (simp_all add: trait_persistence_allowed_def getattr_originated_from_def)
qed

theorem trait_persistence_allowed_server_witness:
  "trait_persistence_allowed (ex_environment\<lparr>allow_client_traits := False\<rparr>)
     \<lparr>originated_from = Some SERVER\<rparr>
   \<and> \<not> trait_persistence_allowed (ex_environment\<lparr>allow_client_traits := False\<rparr>)
     \<lparr>originated_from = Some CLIENT\<rparr>
   \<and> \<not> trait_persistence_allowed (ex_environment\<lparr>allow_client_traits := False\<rparr>)
     \<lparr>originated_from = None\<rparr>"
  using trait_persistence_allowed_server
      [of "\<lparr>originated_from = Some SERVER\<rparr>" "ex_environment\<lparr>allow_client_traits := False\<rparr>"]
    trait_persistence_allowed_server
      [of "\<lparr>originated_from = Some CLIENT\<rparr>" "ex_environment\<lparr>allow_client_traits := False\<rparr>"]
    trait_persistence_allowed_server
      [of "\<lparr>originated_from = None\<rparr>" "ex_environment\<lparr>allow_client_traits := False\<rparr>"]
  by (simp add: ex_defs)

text \<open>
  C6. \<^verbatim>\<open>get_hash_key\<close> returns the composite key, the environment's API key, an
  underscore and the identifier, when \<^verbatim>\<open>use_mv_v2_evaluation\<close> is true, and the
  identity's numeric id as a decimal string when it is false.
\<close>

theorem get_hash_key_cases:
  "get_hash_key self True = api_key (identity_environment self) @ ''_'' @ identity_identifier self
   \<and> get_hash_key self False = str_int (identity_id self)"
  by (simp add: get_hash_key_def composite_key_def)

theorem get_hash_key_cases_witness:
  "get_hash_key ex_identity True = ''abc_user1'' \<and> get_hash_key ex_identity False = ''7''"
proof -
  have "str_int 7 = ''7''" by code_simp
  then show ?thesis
    using get_hash_key_cases [of ex_identity] by (simp add: ex_defs)
qed

section \<open>Properties: the priority resolver\<close>

lemma feature_state_gt_irrefl: "\<not> feature_state_gt a a"
  by (auto simp: feature_state_gt_def split: option.splits)

lemma feature_state_gt_neg_trans:
  "\<not> feature_state_gt c cur \<Longrightarrow> feature_state_gt flag cur \<Longrightarrow> \<not> feature_state_gt c flag"
  by (auto simp: feature_state_gt_def split: option.splits)

lemma build_distinct:
  "distinct (map fst d) \<Longrightarrow> distinct (map fst (build_identity_flags xs d))"
  by (induction xs arbitrary: d) (auto simp: distinct_update split: option.splits)

lemma best_step_new:
  assumes "best_so_far S d" "map_of d (feature_id x) = None"
  shows "best_so_far (insert x S) (AList.update (feature_id x) x d)"
  using assms unfolding best_so_far_def
  by (auto simp: update_conv' feature_state_gt_irrefl)

lemma best_step_replace:
  assumes "best_so_far S d" "map_of d (feature_id x) = Some cur" "feature_state_gt x cur"
  shows "best_so_far (insert x S) (AList.update (feature_id x) x d)"
  using assms unfolding best_so_far_def
  by (auto simp: update_conv' feature_state_gt_irrefl dest: feature_state_gt_neg_trans)

lemma best_step_keep:
  assumes "best_so_far S d" "map_of d (feature_id x) = Some cur" "\<not> feature_state_gt x cur"
  shows "best_so_far (insert x S) d"
  using assms unfolding best_so_far_def
  by auto

lemma build_best:
  "best_so_far S d \<Longrightarrow> best_so_far (S \<union> set xs) (build_identity_flags xs d)"
proof (induction xs arbitrary: S d)
  case Nil
  then show ?case by simp
next
  case (Cons x xs)
  show ?case
  proof (cases "map_of d (feature_id x)")
    case None
    from Cons.IH[OF best_step_new[OF Cons.prems None]] show ?thesis
      using None by simp
  next
    case (Some cur)
    show ?thesis
    proof (cases "feature_state_gt x cur")
      case True
      from Cons.IH[OF best_step_replace[OF Cons.prems Some True]] show ?thesis
        using Some True by simp
    next
      case False
      from Cons.IH[OF best_step_keep[OF Cons.prems Some False]] show ?thesis
        using Some False by simp
    qed
  qed
qed

lemma build_best_all: "best_so_far (set xs) (build_identity_flags xs [])"
proof -
  have "best_so_far {} []" by (simp add: best_so_far_def)
  from build_best[OF this, of xs] show ?thesis by simp
qed

lemma build_distinct_all: "distinct (map fst (build_identity_flags xs []))"
  by (rule build_distinct) simp

lemma build_entry:
  assumes "(k, v) \<in> set (build_identity_flags xs [])"
  shows "feature_id v = k \<and> v \<in> set xs
       \<and> (\<forall>c\<in>set xs. feature_id c = k \<longrightarrow> \<not> feature_state_gt c v)"
proof -
  have "map_of (build_identity_flags xs []) k = Some v"
    using assms build_distinct_all by simp
  then show ?thesis
    using build_best_all[of xs] unfolding best_so_far_def by blast
qed

lemma build_keys:
  "map (feature_id \<circ> snd) (build_identity_flags xs []) = map fst (build_identity_flags xs [])"
  by (rule map_ext) (auto dest: build_entry)

lemma build_values_distinct:
  "distinct (map feature_id (map snd (build_identity_flags xs [])))"
  using build_distinct_all[of xs] by (simp add: build_keys)

lemma build_covers:
  assumes "c \<in> set xs"
  shows "\<exists>v \<in> set (map snd (build_identity_flags xs [])). feature_id v = feature_id c"
proof -
  from build_best_all[of xs] assms obtain v
    where v: "map_of (build_identity_flags xs []) (feature_id c) = Some v"
    unfolding best_so_far_def by blast
  then have "(feature_id c, v) \<in> set (build_identity_flags xs [])" by (rule map_of_SomeD)
  with build_entry[OF this] show ?thesis by force
qed

lemma hide_or_all_subset: "set (hide_or_all env d) \<subseteq> set (map snd d)"
  by (auto simp: hide_or_all_def)

lemma hide_or_all_distinct:
  "distinct (map feature_id (map snd d)) \<Longrightarrow> distinct (map feature_id (hide_or_all env d))"
  by (simp add: hide_or_all_def distinct_map_filter)

lemma not_gt_tiers:
  assumes "\<not> feature_state_gt c r"
  shows "(fs_identity c \<noteq> None \<longrightarrow> fs_identity r \<noteq> None)
       \<and> (fs_identity r = None \<and> feature_segment c \<noteq> None \<longrightarrow>
            feature_segment r \<noteq> None
            \<and> priority (the (feature_segment r)) \<le> priority (the (feature_segment c)))"
  using assms by (auto simp: feature_state_gt_def split: option.splits)

text \<open>
  C1, as stated, fails: in an environment that hides disabled flags, the only candidate
  for feature 10 is the disabled environment default, and no feature state is returned
  for feature 10.
\<close>

theorem one_state_per_feature_counterexample:
  "all_flags [ex_default] ex_hiding_identity
       (get_segments match_all [ex_segment] [] [] ex_hiding_identity None True) 10 None
     = [ex_default]
   \<and> get_all_feature_states match_all [ex_segment] [] 10 [ex_default] ex_hiding_identity None None
     = []"
  by (simp add: ex_defs query_defs)

text \<open>
  C1, amended. \<^verbatim>\<open>get_all_feature_states\<close> returns at most one feature state per
  feature id, and every returned state is one of the candidates. For every feature id
  among the candidates the loop selects exactly one state, a maximum among the
  candidates of the feature, and that state is returned, unless the effective
  \<^verbatim>\<open>hide_disabled_flags\<close> is true and the selected state is disabled: then nothing is
  returned for the feature. So without hiding every feature id among the candidates has
  exactly one returned state. Each returned state is a maximum among the candidates of
  its feature under the priority ordering: no candidate of the feature outranks it; it
  is an identity override if any candidate is; otherwise, if any candidate is a segment
  override, it is a segment override whose FeatureSegment priority is lowest among them.
\<close>

theorem get_all_feature_states_priority:
  fixes does_identity_match :: "segment \<Rightarrow> identity \<Rightarrow> 't list \<Rightarrow> bool"
  shows
  "(let candidates = all_flags table self
        (get_segments does_identity_match environment_segments [] identity_traits self traits True)
        now additional_filters;
       selected = map snd (build_identity_flags candidates []);
       result = get_all_feature_states does_identity_match environment_segments identity_traits
                  now table self traits additional_filters
    in distinct (map feature_id result)
     \<and> set result \<subseteq> set candidates
     \<and> (\<not> get_hide_disabled_flags (identity_environment self) \<longrightarrow>
          (\<forall>c \<in> set candidates. \<exists>r \<in> set result. feature_id r = feature_id c))
     \<and> (\<forall>r \<in> set result. \<forall>c \<in> set candidates. feature_id c = feature_id r \<longrightarrow>
          \<not> feature_state_gt c r
          \<and> (fs_identity c \<noteq> None \<longrightarrow> fs_identity r \<noteq> None)
          \<and> (fs_identity r = None \<and> feature_segment c \<noteq> None \<longrightarrow>
                feature_segment r \<noteq> None
                \<and> priority (the (feature_segment r)) \<le> priority (the (feature_segment c))))
     \<and> distinct (map feature_id selected)
     \<and> (\<forall>c \<in> set candidates. \<exists>s \<in> set selected.
          feature_id s = feature_id c
          \<and> s \<in> set candidates
          \<and> (\<forall>c' \<in> set candidates. feature_id c' = feature_id c \<longrightarrow> \<not> feature_state_gt c' s)
          \<and> (if get_hide_disabled_flags (identity_environment self) \<and> \<not> enabled s
              then \<forall>r \<in> set result. feature_id r \<noteq> feature_id c
              else s \<in> set result)))"
proof -
  define cands where "cands = all_flags table self
        (get_segments does_identity_match environment_segments [] identity_traits self traits True)
        now additional_filters"
  define d where "d = build_identity_flags cands []"
  define sel where "sel = map snd (build_identity_flags cands [])"
  define res where "res = hide_or_all (identity_environment self) d"
  have res_eq: "get_all_feature_states does_identity_match environment_segments identity_traits
                  now table self traits additional_filters = res"
    by (simp add: get_all_feature_states_def Let_def res_def d_def cands_def)
  have sel_d: "sel = map snd d"
    by (simp only: sel_def d_def)
  have res_sel: "res = (if get_hide_disabled_flags (identity_environment self)
                        then filter enabled sel else sel)"
    by (simp add: res_def hide_or_all_def sel_d)
  have sub: "set res \<subseteq> set sel"
    unfolding res_def sel_d by (rule hide_or_all_subset)
  have entry: "v \<in> set cands
      \<and> (\<forall>c\<in>set cands. feature_id c = feature_id v \<longrightarrow> \<not> feature_state_gt c v)"
    if "v \<in> set sel" for v
  proof -
    from that obtain k where "(k, v) \<in> set d" unfolding sel_d by auto
    from build_entry[OF this[unfolded d_def]] show ?thesis by blast
  qed
  have 1: "distinct (map feature_id res)"
    unfolding res_def d_def by (rule hide_or_all_distinct) (rule build_values_distinct)
  have 2: "set res \<subseteq> set cands"
    using sub entry by blast
  have 3: "\<forall>c \<in> set cands. \<exists>r \<in> set res. feature_id r = feature_id c"
    if "\<not> get_hide_disabled_flags (identity_environment self)"
    using that build_covers[of _ cands] by (simp add: res_def hide_or_all_def d_def)
  have 4: "\<not> feature_state_gt c r"
    if "r \<in> set res" "c \<in> set cands" "feature_id c = feature_id r" for r c
    using that sub entry by blast
  have 5: "distinct (map feature_id sel)"
    unfolding sel_def by (rule build_values_distinct)
  then have inj: "inj_on feature_id (set sel)"
    by (simp add: distinct_map)
  have 6: "\<exists>s \<in> set sel.
          feature_id s = feature_id c
          \<and> s \<in> set cands
          \<and> (\<forall>c' \<in> set cands. feature_id c' = feature_id c \<longrightarrow> \<not> feature_state_gt c' s)
          \<and> (if get_hide_disabled_flags (identity_environment self) \<and> \<not> enabled s
              then \<forall>r \<in> set res. feature_id r \<noteq> feature_id c
              else s \<in> set res)"
    if c: "c \<in> set cands" for c
  proof -
    from build_covers[OF c] obtain s where s: "s \<in> set sel" "feature_id s = feature_id c"
      unfolding sel_def by blast
    from entry[OF s(1)] s(2) have best: "s \<in> set cands"
        "\<forall>c' \<in> set cands. feature_id c' = feature_id c \<longrightarrow> \<not> feature_state_gt c' s"
      by simp_all
    have last: "if get_hide_disabled_flags (identity_environment self) \<and> \<not> enabled s
              then \<forall>r \<in> set res. feature_id r \<noteq> feature_id c
              else s \<in> set res"
    proof (cases "get_hide_disabled_flags (identity_environment self) \<and> \<not> enabled s")
      case True
      have "feature_id r \<noteq> feature_id c" if r: "r \<in> set res" for r
      proof
        assume "feature_id r = feature_id c"
        with s(2) have eq: "feature_id r = feature_id s" by simp
        from r sub have rs: "r \<in> set sel" by blast
        from inj eq rs s(1) have "r = s" by (rule inj_onD)
        moreover from r True have "enabled r" by (simp add: res_sel)
        ultimately show False using True by simp
      qed
      then show ?thesis by (simp only: if_P[OF True]) blast
    next
      case False
      with s(1) have "s \<in> set res" by (auto simp: res_sel)
      then show ?thesis by (simp only: if_not_P[OF False])
    qed
    from s best last show ?thesis by blast
  qed
  show ?thesis
    unfolding Let_def res_eq cands_def[symmetric] sel_def[symmetric]
  proof (intro conjI)
    show "distinct (map feature_id res)" by (rule 1)
    show "set res \<subseteq> set cands" by (rule 2)
    show "\<not> get_hide_disabled_flags (identity_environment self) \<longrightarrow>
          (\<forall>c \<in> set cands. \<exists>r \<in> set res. feature_id r = feature_id c)"
      using 3 by blast
    show "\<forall>r \<in> set res. \<forall>c \<in> set cands. feature_id c = feature_id r \<longrightarrow>
          \<not> feature_state_gt c r
          \<and> (fs_identity c \<noteq> None \<longrightarrow> fs_identity r \<noteq> None)
          \<and> (fs_identity r = None \<and> feature_segment c \<noteq> None \<longrightarrow>
                feature_segment r \<noteq> None
                \<and> priority (the (feature_segment r)) \<le> priority (the (feature_segment c)))"
      using 4 not_gt_tiers by blast
    show "distinct (map feature_id sel)" by (rule 5)
    show "\<forall>c \<in> set cands. \<exists>s \<in> set sel.
          feature_id s = feature_id c
          \<and> s \<in> set cands
          \<and> (\<forall>c' \<in> set cands. feature_id c' = feature_id c \<longrightarrow> \<not> feature_state_gt c' s)
          \<and> (if get_hide_disabled_flags (identity_environment self) \<and> \<not> enabled s
              then \<forall>r \<in> set res. feature_id r \<noteq> feature_id c
              else s \<in> set res)"
      using 6 by blast
  qed
qed

theorem get_all_feature_states_priority_witness:
  "all_flags ex_table ex_identity
       (get_segments match_all [ex_segment] [] [] ex_identity None True) 10 None
     = [ex_default, ex_segment_override, ex_identity_override]
   \<and> \<not> get_hide_disabled_flags (identity_environment ex_identity)
   \<and> get_all_feature_states match_all [ex_segment] [] 10 ex_table ex_identity None None
     = [ex_identity_override]
   \<and> \<not> feature_state_gt ex_segment_override ex_identity_override
   \<and> \<not> feature_state_gt ex_default ex_identity_override
   \<and> get_hide_disabled_flags (identity_environment ex_hiding_identity)
   \<and> map snd (build_identity_flags
         (all_flags [ex_default, ex_other_default] ex_hiding_identity
            (get_segments match_all [ex_segment] [] [] ex_hiding_identity None True) 10 None) [])
       = [ex_default, ex_other_default]
   \<and> \<not> enabled ex_default \<and> enabled ex_other_default
   \<and> get_all_feature_states match_all [ex_segment] [] 10 [ex_default, ex_other_default]
         ex_hiding_identity None None
       = [ex_other_default]"
  using get_all_feature_states_priority
    [where table = ex_table and self = ex_identity and does_identity_match = match_all
       and environment_segments = "[ex_segment]" and identity_traits = "[]" and traits = None
       and now = 10 and additional_filters = None]
    get_all_feature_states_priority
    [where table = "[ex_default, ex_other_default]" and self = ex_hiding_identity
       and does_identity_match = match_all
       and environment_segments = "[ex_segment]" and identity_traits = "[]" and traits = None
       and now = 10 and additional_filters = None]
  by (simp add: ex_defs ex_other_default_def query_defs)

lemma feature_state_gt_trans: "feature_state_gt a b \<Longrightarrow> feature_state_gt b c \<Longrightarrow> feature_state_gt a c"
  by (auto simp: feature_state_gt_def split: option.splits)

lemma feature_state_gt_above: "feature_state_gt x cur \<Longrightarrow> \<not> feature_state_gt c cur \<Longrightarrow> feature_state_gt x c"
  by (auto simp: feature_state_gt_def split: option.splits)

lemma first_step_new:
  assumes "first_best seen d" "map_of d (feature_id x) = None"
  shows "first_best (seen @ [x]) (AList.update (feature_id x) x d)"
  unfolding first_best_def
proof (intro conjI allI impI ballI)
  fix k v assume kv: "map_of (AList.update (feature_id x) x d) k = Some v"
  show "feature_id v = k"
    using kv assms unfolding first_best_def by (auto simp: update_conv' split: if_splits)
  show "\<exists>pre post. seen @ [x] = pre @ v # post
           \<and> (\<forall>c\<in>set pre. feature_id c = k \<longrightarrow> feature_state_gt v c)
           \<and> (\<forall>c\<in>set post. feature_id c = k \<longrightarrow> \<not> feature_state_gt c v)"
  proof (cases "k = feature_id x")
    case True
    then have v: "v = x" using kv by (simp add: update_conv')
    have "\<forall>c\<in>set seen. feature_id c \<noteq> feature_id x"
      using assms unfolding first_best_def by auto
    then have "seen @ [x] = seen @ v # [] \<and> (\<forall>c\<in>set seen. feature_id c = k \<longrightarrow> feature_state_gt v c)
        \<and> (\<forall>c\<in>set []. feature_id c = k \<longrightarrow> \<not> feature_state_gt c v)"
      using v True by simp
    then show ?thesis by blast
  next
    case False
    then have "map_of d k = Some v" using kv by (simp add: update_conv')
    with assms(1) obtain pre post where p: "seen = pre @ v # post"
        "\<forall>c\<in>set pre. feature_id c = k \<longrightarrow> feature_state_gt v c"
        "\<forall>c\<in>set post. feature_id c = k \<longrightarrow> \<not> feature_state_gt c v"
      unfolding first_best_def by blast
    have "seen @ [x] = pre @ v # (post @ [x])" using p(1) by simp
    moreover have "\<forall>c\<in>set (post @ [x]). feature_id c = k \<longrightarrow> \<not> feature_state_gt c v"
      using p(3) False by auto
    ultimately show ?thesis using p(2) by blast
  qed
next
  fix c assume "c \<in> set (seen @ [x])"
  then show "map_of (AList.update (feature_id x) x d) (feature_id c) \<noteq> None"
    using assms(1) unfolding first_best_def by (auto simp: update_conv')
qed

lemma first_step_replace:
  assumes "first_best seen d" "map_of d (feature_id x) = Some cur" "feature_state_gt x cur"
  shows "first_best (seen @ [x]) (AList.update (feature_id x) x d)"
  unfolding first_best_def
proof (intro conjI allI impI ballI)
  fix k v assume kv: "map_of (AList.update (feature_id x) x d) k = Some v"
  show "feature_id v = k"
    using kv assms unfolding first_best_def by (auto simp: update_conv' split: if_splits)
  show "\<exists>pre post. seen @ [x] = pre @ v # post
           \<and> (\<forall>c\<in>set pre. feature_id c = k \<longrightarrow> feature_state_gt v c)
           \<and> (\<forall>c\<in>set post. feature_id c = k \<longrightarrow> \<not> feature_state_gt c v)"
  proof (cases "k = feature_id x")
    case True
    then have v: "v = x" using kv by (simp add: update_conv')
    from assms(1,2) obtain pre post where p: "seen = pre @ cur # post"
        "\<forall>c\<in>set pre. feature_id c = feature_id x \<longrightarrow> feature_state_gt cur c"
        "\<forall>c\<in>set post. feature_id c = feature_id x \<longrightarrow> \<not> feature_state_gt c cur"
      unfolding first_best_def by blast
    have "feature_state_gt x c" if "c \<in> set seen" "feature_id c = feature_id x" for c
    proof -
      from that(1) p(1) consider "c \<in> set pre" | "c = cur" | "c \<in> set post" by auto
      then show ?thesis
      proof cases
        case 1
        with p(2) that(2) have "feature_state_gt cur c" by blast
        with assms(3) show ?thesis by (rule feature_state_gt_trans)
      next
        case 2
        with assms(3) show ?thesis by simp
      next
        case 3
        with p(3) that(2) have "\<not> feature_state_gt c cur" by blast
        with assms(3) show ?thesis by (rule feature_state_gt_above)
      qed
    qed
    then have "seen @ [x] = seen @ v # [] \<and> (\<forall>c\<in>set seen. feature_id c = k \<longrightarrow> feature_state_gt v c)
        \<and> (\<forall>c\<in>set []. feature_id c = k \<longrightarrow> \<not> feature_state_gt c v)"
      using v True by simp
    then show ?thesis by blast
  next
    case False
    then have "map_of d k = Some v" using kv by (simp add: update_conv')
    with assms(1) obtain pre post where p: "seen = pre @ v # post"
        "\<forall>c\<in>set pre. feature_id c = k \<longrightarrow> feature_state_gt v c"
        "\<forall>c\<in>set post. feature_id c = k \<longrightarrow> \<not> feature_state_gt c v"
      unfolding first_best_def by blast
    have "seen @ [x] = pre @ v # (post @ [x])" using p(1) by simp
    moreover have "\<forall>c\<in>set (post @ [x]). feature_id c = k \<longrightarrow> \<not> feature_state_gt c v"
      using p(3) False by auto
    ultimately show ?thesis using p(2) by blast
  qed
next
  fix c assume "c \<in> set (seen @ [x])"
  then show "map_of (AList.update (feature_id x) x d) (feature_id c) \<noteq> None"
    using assms(1) unfolding first_best_def by (auto simp: update_conv')
qed

lemma first_step_keep:
  assumes "first_best seen d" "map_of d (feature_id x) = Some cur" "\<not> feature_state_gt x cur"
  shows "first_best (seen @ [x]) d"
  unfolding first_best_def
proof (intro conjI allI impI ballI)
  fix k v assume kv: "map_of d k = Some v"
  show "feature_id v = k"
    using kv assms unfolding first_best_def by auto
  from kv assms(1) obtain pre post where p: "seen = pre @ v # post"
        "\<forall>c\<in>set pre. feature_id c = k \<longrightarrow> feature_state_gt v c"
        "\<forall>c\<in>set post. feature_id c = k \<longrightarrow> \<not> feature_state_gt c v"
    unfolding first_best_def by blast
  have "seen @ [x] = pre @ v # (post @ [x])" using p(1) by simp
  moreover have "\<forall>c\<in>set (post @ [x]). feature_id c = k \<longrightarrow> \<not> feature_state_gt c v"
    using p(3) kv assms(2,3) by auto
  ultimately show "\<exists>pre post. seen @ [x] = pre @ v # post
           \<and> (\<forall>c\<in>set pre. feature_id c = k \<longrightarrow> feature_state_gt v c)
           \<and> (\<forall>c\<in>set post. feature_id c = k \<longrightarrow> \<not> feature_state_gt c v)"
    using p(2) by blast
next
  fix c assume "c \<in> set (seen @ [x])"
  then show "map_of d (feature_id c) \<noteq> None"
    using assms(1,2) unfolding first_best_def by auto
qed

lemma build_first:
  "first_best seen d \<Longrightarrow> first_best (seen @ xs) (build_identity_flags xs d)"
proof (induction xs arbitrary: seen d)
  case Nil
  then show ?case by simp
next
  case (Cons x xs)
  show ?case
  proof (cases "map_of d (feature_id x)")
    case None
    from Cons.IH[OF first_step_new[OF Cons.prems None]] show ?thesis
      using None by simp
  next
    case (Some cur)
    show ?thesis
    proof (cases "feature_state_gt x cur")
      case True
      from Cons.IH[OF first_step_replace[OF Cons.prems Some True]] show ?thesis
        using Some True by simp
    next
      case False
      from Cons.IH[OF first_step_keep[OF Cons.prems Some False]] show ?thesis
        using Some False by simp
    qed
  qed
qed

lemma build_first_all: "first_best xs (build_identity_flags xs [])"
proof -
  have "first_best [] []" by (simp add: first_best_def)
  from build_first[OF this, of xs] show ?thesis by simp
qed


text \<open>
  C2. The output of \<^verbatim>\<open>get_all_feature_states\<close> is a function of the identity (with its
  environment) and of the candidate rows in their order: two invocations that see the same
  candidate rows return the same list, whatever the clock, the table, the segments and
  the traits were. Ties do not make it depend on anything else: the state returned for a
  feature outranks every candidate of the feature before it in the row order, and no
  candidate after it outranks it, so among candidates that compare equal the first row
  is returned.
\<close>

theorem get_all_feature_states_deterministic:
  fixes match1 :: "segment \<Rightarrow> identity \<Rightarrow> 't list \<Rightarrow> bool"
    and match2 :: "segment \<Rightarrow> identity \<Rightarrow> 'u list \<Rightarrow> bool"
  shows
  "(all_flags table1 self (get_segments match1 segs1 [] stored1 self traits1 True) now1 filters1
      = all_flags table2 self (get_segments match2 segs2 [] stored2 self traits2 True) now2 filters2
    \<longrightarrow> get_all_feature_states match1 segs1 stored1 now1 table1 self traits1 filters1
      = get_all_feature_states match2 segs2 stored2 now2 table2 self traits2 filters2)
   \<and> (\<forall>r \<in> set (get_all_feature_states match1 segs1 stored1 now1 table1 self traits1 filters1).
        \<exists>pre post.
          all_flags table1 self (get_segments match1 segs1 [] stored1 self traits1 True) now1 filters1
            = pre @ r # post
          \<and> (\<forall>c\<in>set pre. feature_id c = feature_id r \<longrightarrow> feature_state_gt r c)
          \<and> (\<forall>c\<in>set post. feature_id c = feature_id r \<longrightarrow> \<not> feature_state_gt c r))"
proof (intro conjI impI ballI)
  assume "all_flags table1 self (get_segments match1 segs1 [] stored1 self traits1 True) now1 filters1
      = all_flags table2 self (get_segments match2 segs2 [] stored2 self traits2 True) now2 filters2"
  then show "get_all_feature_states match1 segs1 stored1 now1 table1 self traits1 filters1
      = get_all_feature_states match2 segs2 stored2 now2 table2 self traits2 filters2"
    by (simp add: get_all_feature_states_def Let_def)
next
  fix r
  define cands where
    "cands = all_flags table1 self (get_segments match1 segs1 [] stored1 self traits1 True) now1 filters1"
  assume "r \<in> set (get_all_feature_states match1 segs1 stored1 now1 table1 self traits1 filters1)"
  then have "r \<in> set (hide_or_all (identity_environment self) (build_identity_flags cands []))"
    by (simp add: get_all_feature_states_def Let_def cands_def)
  then have "r \<in> set (map snd (build_identity_flags cands []))"
    using hide_or_all_subset by blast
  then obtain k where "(k, r) \<in> set (build_identity_flags cands [])" by auto
  then have "map_of (build_identity_flags cands []) k = Some r"
    using build_distinct_all by simp
  with build_first_all[of cands]
  show "\<exists>pre post. cands = pre @ r # post
          \<and> (\<forall>c\<in>set pre. feature_id c = feature_id r \<longrightarrow> feature_state_gt r c)
          \<and> (\<forall>c\<in>set post. feature_id c = feature_id r \<longrightarrow> \<not> feature_state_gt c r)"
    unfolding first_best_def by blast
qed

theorem get_all_feature_states_deterministic_witness:
  "all_flags ex_table ex_identity
       (get_segments match_all [ex_segment] [] [] ex_identity None True) 10 None
     = all_flags (ex_table @ [ex_default\<lparr>fs_id := 6, live_from := Some 15\<rparr>]) ex_identity
       (get_segments match_all [ex_segment] [] [] ex_identity None True) 12 None
   \<and> get_all_feature_states match_all [ex_segment] [] 10 ex_table ex_identity None None
     = get_all_feature_states match_all [ex_segment] [] 12 (ex_table @ [ex_default\<lparr>fs_id := 6, live_from := Some 15\<rparr>])
         ex_identity None None
   \<and> \<not> feature_state_gt ex_default ex_default_v2 \<and> \<not> feature_state_gt ex_default_v2 ex_default
   \<and> get_all_feature_states match_all [] [] 10 [ex_default, ex_default_v2] ex_identity None None
     = [ex_default]"
proof -
  have same_candidates:
    "all_flags ex_table ex_identity
       (get_segments match_all [ex_segment] [] [] ex_identity None True) 10 None
     = all_flags (ex_table @ [ex_default\<lparr>fs_id := 6, live_from := Some 15\<rparr>]) ex_identity
       (get_segments match_all [ex_segment] [] [] ex_identity None True) 12 None"
    by (simp add: ex_defs query_defs)
  have tie:
    "\<not> feature_state_gt ex_default ex_default_v2 \<and> \<not> feature_state_gt ex_default_v2 ex_default
     \<and> get_all_feature_states match_all [] [] 10 [ex_default, ex_default_v2] ex_identity None None
       = [ex_default]"
    by (simp add: ex_defs ex_default_v2_def query_defs)
  from get_all_feature_states_deterministic [THEN conjunct1, THEN mp, OF same_candidates]
  have "get_all_feature_states match_all [ex_segment] [] 10 ex_table ex_identity None None
     = get_all_feature_states match_all [ex_segment] [] 12 (ex_table @ [ex_default\<lparr>fs_id := 6, live_from := Some 15\<rparr>])
         ex_identity None None" .
  with same_candidates tie show ?thesis by blast
qed

text \<open>
  C3. The effective \<^verbatim>\<open>hide_disabled_flags\<close> is the environment's value when that is not
  null and the project's otherwise. When it is true, the result is the selected states
  (the values of \<^verbatim>\<open>identity_flags\<close>) without the disabled ones: a selected state that
  is disabled is not in the result, and nothing else is returned for its feature.
\<close>

theorem hide_disabled_flags_drops_disabled:
  fixes does_identity_match :: "segment \<Rightarrow> identity \<Rightarrow> 't list \<Rightarrow> bool"
  shows
  "get_hide_disabled_flags env
     = (case hide_disabled_flags env of
          Some b \<Rightarrow> b
        | None \<Rightarrow> project_hide_disabled_flags (env_project env))
   \<and> (get_hide_disabled_flags (identity_environment self) \<longrightarrow>
        (let selected = map snd (build_identity_flags
               (all_flags table self
                  (get_segments does_identity_match environment_segments [] identity_traits
                     self traits True)
                  now additional_filters) []);
             result = get_all_feature_states does_identity_match environment_segments
                        identity_traits now table self traits additional_filters
         in result = filter enabled selected
          \<and> (\<forall>s \<in> set selected. \<not> enabled s \<longrightarrow>
                s \<notin> set result \<and> (\<forall>r \<in> set result. feature_id r \<noteq> feature_id s))))"
proof (intro conjI impI)
  show "get_hide_disabled_flags env
     = (case hide_disabled_flags env of
          Some b \<Rightarrow> b
        | None \<Rightarrow> project_hide_disabled_flags (env_project env))"
    by (simp add: get_hide_disabled_flags_def split: option.splits)
next
  assume hide: "get_hide_disabled_flags (identity_environment self)"
  define cands where "cands = all_flags table self
      (get_segments does_identity_match environment_segments [] identity_traits self traits True)
      now additional_filters"
  define selected where "selected = map snd (build_identity_flags cands [])"
  define result where "result = get_all_feature_states does_identity_match environment_segments
      identity_traits now table self traits additional_filters"
  have res: "result = filter enabled selected"
    using hide
    by (simp add: result_def get_all_feature_states_def Let_def hide_or_all_def selected_def cands_def)
  have "distinct (map feature_id selected)"
    unfolding selected_def by (rule build_values_distinct)
  then have inj: "inj_on feature_id (set selected)"
    by (simp add: distinct_map)
  have "s \<notin> set result \<and> (\<forall>r \<in> set result. feature_id r \<noteq> feature_id s)"
    if s: "s \<in> set selected" "\<not> enabled s" for s
  proof (intro conjI ballI notI)
    assume "s \<in> set result"
    with res s(2) show False by simp
  next
    fix r assume r: "r \<in> set result" and eq: "feature_id r = feature_id s"
    from r res have "r \<in> set selected" "enabled r" by simp_all
    with inj s(1) eq have "r = s" by (auto dest: inj_onD)
    with \<open>enabled r\<close> s(2) show False by simp
  qed
  with res show "let selected = map snd (build_identity_flags
               (all_flags table self
                  (get_segments does_identity_match environment_segments [] identity_traits
                     self traits True)
                  now additional_filters) []);
             result = get_all_feature_states does_identity_match environment_segments
                        identity_traits now table self traits additional_filters
         in result = filter enabled selected
          \<and> (\<forall>s \<in> set selected. \<not> enabled s \<longrightarrow>
                s \<notin> set result \<and> (\<forall>r \<in> set result. feature_id r \<noteq> feature_id s))"
    unfolding Let_def selected_def[symmetric, unfolded cands_def] result_def[symmetric]
      cands_def[symmetric] selected_def[symmetric]
    by blast
qed

theorem hide_disabled_flags_drops_disabled_witness:
  "get_hide_disabled_flags ex_hiding_environment
   \<and> \<not> get_hide_disabled_flags ex_environment
   \<and> get_hide_disabled_flags (ex_environment\<lparr>env_project :=
         ex_project\<lparr>project_hide_disabled_flags := True\<rparr>\<rparr>)
   \<and> map snd (build_identity_flags
         (all_flags [ex_default, ex_other_default] ex_hiding_identity
            (get_segments match_all [ex_segment] [] [] ex_hiding_identity None True) 10 None) [])
       = [ex_default, ex_other_default]
   \<and> \<not> enabled ex_default
   \<and> get_all_feature_states match_all [ex_segment] [] 10 [ex_default, ex_other_default]
         ex_hiding_identity None None
       = [ex_other_default]"
  using hide_disabled_flags_drops_disabled
    [of ex_hiding_environment ex_hiding_identity "[ex_default, ex_other_default]" match_all
        "[ex_segment]" "[]" None 10 None]
  by (simp add: ex_defs ex_other_default_def query_defs)

text \<open>
  C4, as stated, fails: with an additional filter for feature 11, the live environment
  default of feature 10 in the identity's environment is not a candidate.
\<close>

theorem candidate_rows_counterexample:
  "live_from ex_default = Some 0 \<and> (0::int) \<le> 10 \<and> version ex_default \<noteq> None
   \<and> fs_environment ex_default = env_id (identity_environment ex_identity)
   \<and> fs_identity ex_default = None \<and> feature_segment ex_default = None
   \<and> ex_default \<notin> set (all_flags [ex_default] ex_identity
         (get_segments match_all [ex_segment] [] [] ex_identity None True) 10
         (Some only_feature_11))"
  by (simp add: ex_defs only_feature_11_def query_defs)

text \<open>
  C4, amended. \<^verbatim>\<open>get_all_feature_states\<close> resolves the rows of \<^verbatim>\<open>all_flags\<close>, and a row
  of the table is among them exactly when \<^verbatim>\<open>live_from <= now\<close>, \<^verbatim>\<open>version\<close> is not
  null, it belongs to the identity's environment, it is an override for this identity,
  or an override for one of the environment's override segments that the identity
  matches, with the feature segment in this environment, or an environment default,
  and, when additional filters are passed, it satisfies them too.
\<close>

theorem candidate_rows:
  fixes does_identity_match :: "segment \<Rightarrow> identity \<Rightarrow> 't list \<Rightarrow> bool"
  shows
  "get_all_feature_states does_identity_match environment_segments identity_traits now table
       self traits additional_filters
     = hide_or_all (identity_environment self)
         (build_identity_flags
            (all_flags table self
               (get_segments does_identity_match environment_segments [] identity_traits
                  self traits True)
               now additional_filters) [])
   \<and> (row \<in> set (all_flags table self
          (get_segments does_identity_match environment_segments [] identity_traits
             self traits True)
          now additional_filters)
      \<longleftrightarrow>
        row \<in> set table
      \<and> (\<exists>t. live_from row = Some t \<and> t \<le> now)
      \<and> version row \<noteq> None
      \<and> fs_environment row = env_id (identity_environment self)
      \<and> (fs_identity row = Some (identity_id self)
         \<or> (\<exists>fseg seg. feature_segment row = Some fseg
               \<and> seg \<in> set environment_segments
               \<and> does_identity_match seg self
                    (case traits of None \<Rightarrow> identity_traits | Some ts \<Rightarrow> ts)
               \<and> fseg_segment fseg = segment_id seg
               \<and> fseg_environment fseg = env_id (identity_environment self))
         \<or> (fs_identity row = None \<and> feature_segment row = None))
      \<and> (case additional_filters of None \<Rightarrow> True | Some q \<Rightarrow> q row))"
proof (intro conjI)
  show "get_all_feature_states does_identity_match environment_segments identity_traits now table
       self traits additional_filters
     = hide_or_all (identity_environment self)
         (build_identity_flags
            (all_flags table self
               (get_segments does_identity_match environment_segments [] identity_traits
                  self traits True)
               now additional_filters) [])"
    by (simp add: get_all_feature_states_def Let_def)
next
  have live: "only_live_versions_query now row
      \<longleftrightarrow> (\<exists>t. live_from row = Some t \<and> t \<le> now) \<and> version row \<noteq> None"
    by (auto simp: only_live_versions_query_def split: option.splits)
  have seg: "overridden_for_segment_query self
        (get_segments does_identity_match environment_segments [] identity_traits self traits True)
        row
      \<longleftrightarrow> (\<exists>fseg seg. feature_segment row = Some fseg
               \<and> seg \<in> set environment_segments
               \<and> does_identity_match seg self
                    (case traits of None \<Rightarrow> identity_traits | Some ts \<Rightarrow> ts)
               \<and> fseg_segment fseg = segment_id seg
               \<and> fseg_environment fseg = env_id (identity_environment self))"
    by (auto simp: overridden_for_segment_query_def get_segments_def Let_def split: option.splits)
  show "row \<in> set (all_flags table self
          (get_segments does_identity_match environment_segments [] identity_traits
             self traits True)
          now additional_filters)
      \<longleftrightarrow>
        row \<in> set table
      \<and> (\<exists>t. live_from row = Some t \<and> t \<le> now)
      \<and> version row \<noteq> None
      \<and> fs_environment row = env_id (identity_environment self)
      \<and> (fs_identity row = Some (identity_id self)
         \<or> (\<exists>fseg seg. feature_segment row = Some fseg
               \<and> seg \<in> set environment_segments
               \<and> does_identity_match seg self
                    (case traits of None \<Rightarrow> identity_traits | Some ts \<Rightarrow> ts)
               \<and> fseg_segment fseg = segment_id seg
               \<and> fseg_environment fseg = env_id (identity_environment self))
         \<or> (fs_identity row = None \<and> feature_segment row = None))
      \<and> (case additional_filters of None \<Rightarrow> True | Some q \<Rightarrow> q row)"
    unfolding all_flags_def full_query_def Let_def set_filter mem_Collect_eq live seg
      belongs_to_environment_query_def overridden_for_identity_query_def
      environment_default_query_def
    by (cases additional_filters) auto
qed

theorem candidate_rows_witness:
  "ex_segment_override \<in> set (all_flags ex_table ex_identity
          (get_segments match_all [ex_segment] [] [] ex_identity None True) 10 None)
   \<and> ex_segment_override \<in> set ex_table
   \<and> live_from ex_segment_override = Some 0
   \<and> feature_segment ex_segment_override = Some ex_feature_segment
   \<and> fseg_segment ex_feature_segment = segment_id ex_segment
   \<and> ex_other_default \<notin> set (all_flags [ex_other_default] ex_identity
          (get_segments match_all [ex_segment] [] [] ex_identity None True) 10
          (Some (\<lambda>row. \<not> only_feature_11 row)))"
  using candidate_rows
    [of match_all "[ex_segment]" "[]" 10 ex_table ex_identity None None ex_segment_override]
    candidate_rows
    [of match_all "[ex_segment]" "[]" 10 "[ex_other_default]" ex_identity None
        "Some (\<lambda>row. \<not> only_feature_11 row)" ex_other_default]
  by (simp add: ex_defs ex_other_default_def only_feature_11_def query_defs)

section \<open>Properties: traits\<close>

lemma update_traits_loop_append:
  "update_traits_loop T (xs @ ys) st = update_traits_loop T ys (update_traits_loop T xs st)"
  by (induction xs arbitrary: st) simp_all

lemma step_keys_to_delete:
  "keys_to_delete (update_traits_step T item st)
     = keys_to_delete st @ (if snd item = None then [fst item] else [])"
  by (cases "(T, item, st)" rule: update_traits_step.cases) (auto simp: Let_def split: option.splits)

lemma loop_keys_to_delete:
  "keys_to_delete (update_traits_loop T items st)
     = keys_to_delete st @ map fst (filter (\<lambda>item. snd item = None) items)"
  by (induction items arbitrary: st) (simp_all add: step_keys_to_delete)

lemma step_dom:
  "(current_traits (update_traits_step T item st) k = None) = (current_traits st k = None)"
  by (cases "(T, item, st)" rule: update_traits_step.cases) (auto simp: Let_def split: option.splits)

lemma step_new_traits:
  "k \<in> fst ` set (new_traits (update_traits_step T item st)) \<Longrightarrow>
     k \<in> fst ` set (new_traits st) \<or> (k = fst item \<and> current_traits st k = None)"
  by (cases "(T, item, st)" rule: update_traits_step.cases)
     (auto simp: Let_def split: option.splits if_splits)

lemma loop_new_traits:
  "k \<in> fst ` set (new_traits (update_traits_loop T items st)) \<Longrightarrow>
     k \<in> fst ` set (new_traits st) \<or> (k \<in> fst ` set items \<and> current_traits st k = None)"
proof (induction items arbitrary: st)
  case Nil
  then show ?case by simp
next
  case (Cons item rest)
  from Cons.IH[of "update_traits_step T item st"] Cons.prems
  have "k \<in> fst ` set (new_traits (update_traits_step T item st))
        \<or> (k \<in> fst ` set rest \<and> current_traits st k = None)"
    by (simp add: step_dom)
  then show ?case
    using step_new_traits[of k T item st] by auto
qed

lemma step_updated_traits:
  "k \<in> set (updated_traits (update_traits_step T item st)) \<Longrightarrow>
     k \<in> set (updated_traits st) \<or> k = fst item"
  by (cases "(T, item, st)" rule: update_traits_step.cases)
     (auto simp: Let_def split: option.splits if_splits)

lemma loop_updated_traits:
  "k \<in> set (updated_traits (update_traits_loop T items st)) \<Longrightarrow>
     k \<in> set (updated_traits st) \<or> k \<in> fst ` set items"
proof (induction items arbitrary: st)
  case Nil
  then show ?case by simp
next
  case (Cons item rest)
  from Cons.IH[of "update_traits_step T item st"] Cons.prems
  have "k \<in> set (updated_traits (update_traits_step T item st)) \<or> k \<in> fst ` set rest"
    by simp
  then show ?case
    using step_updated_traits[of k T item st] by auto
qed

lemma step_ignores_keys_to_delete:
  "update_traits_step T item (st\<lparr>keys_to_delete := d\<rparr>)
     = (update_traits_step T item st)\<lparr>keys_to_delete := d @ (if snd item = None then [fst item] else [])\<rparr>"
  by (cases "(T, item, st)" rule: update_traits_step.cases)
     (auto simp: Let_def split: option.splits if_splits)

lemma loop_ignores_keys_to_delete:
  "(update_traits_loop T items (st\<lparr>keys_to_delete := d\<rparr>))\<lparr>keys_to_delete := e\<rparr>
     = (update_traits_loop T items st)\<lparr>keys_to_delete := e\<rparr>"
proof (induction items arbitrary: st d)
  case Nil
  then show ?case by simp
next
  case (Cons item rest)
  have step: "update_traits_step T item (st\<lparr>keys_to_delete := d\<rparr>)
     = (update_traits_step T item st)\<lparr>keys_to_delete := d @ (if snd item = None then [fst item] else [])\<rparr>"
    by (rule step_ignores_keys_to_delete)
  show ?case
    unfolding update_traits_loop.simps step by (rule Cons.IH)
qed

lemma delete_keys_conv:
  "delete_keys keys store = (\<lambda>k. if k \<in> set keys then None else store k)"
  by (auto simp: delete_keys_def)

lemma update_row_None: "(update_row fs objs k' store k = None) = (store k = None)"
  by (auto simp: update_row_def split: option.splits)

lemma update_row_other: "k \<noteq> k' \<Longrightarrow> update_row fs objs k' store k = store k"
  by (auto simp: update_row_def split: option.splits)

lemma bulk_update_None:
  "(bulk_update fs objs ks store k = None) = (store k = None)"
  by (induction fs objs ks store rule: bulk_update.induct) (simp_all add: update_row_None)

lemma bulk_update_other:
  "k \<notin> set ks \<Longrightarrow> bulk_update fs objs ks store k = store k"
  by (induction fs objs ks store rule: bulk_update.induct) (simp_all add: update_row_other)

lemma bulk_create_ignore_conflicts_other:
  "k \<notin> fst ` set new \<Longrightarrow> bulk_create_ignore_conflicts new store k = store k"
  by (induction new store rule: bulk_create_ignore_conflicts.induct) auto



lemma null_keys_set:
  "set (map fst (filter (\<lambda>item. snd item = None) its)) = {k. (k, None) \<in> set its}"
proof (rule set_eqI)
  fix k
  show "k \<in> set (map fst (filter (\<lambda>item. snd item = None) its))
      \<longleftrightarrow> k \<in> {k. (k, None) \<in> set its}"
    by (induction its) auto
qed

lemma loop_deleted_keys:
  "set (keys_to_delete (update_traits_loop T its
      \<lparr>current_traits = store, keys_to_delete = [], new_traits = [], updated_traits = []\<rparr>))
   = {k. (k, None) \<in> set its}"
proof -
  have "fst ` {x \<in> set its. snd x = None} = {k. (k, None) \<in> set its}"
    using null_keys_set[of its] by simp
  then show ?thesis
    by (simp add: loop_keys_to_delete)
qed

text \<open>
  C5. \<^verbatim>\<open>update_traits\<close> deletes every stored trait whose key comes with a null value
  in the incoming list; a null value for a key the identity does not have changes
  nothing (the call with that item and the call without it have the same result), and no
  path of the method raises; a stored trait whose key is not in the incoming list is
  left as it is; and the method returns the traits stored after the merge.
\<close>

theorem update_traits_null_delete:
  fixes T :: "('v, 'a) Trait" and store :: "'a trait_store"
  shows
  "(\<forall>k. store k \<noteq> None \<and> (k, None) \<in> set items \<longrightarrow> fst (update_traits T store items) k = None)
 \<and> (\<forall>k xs ys. store k = None \<longrightarrow>
        update_traits T store (xs @ (k, None) # ys) = update_traits T store (xs @ ys))
 \<and> (\<forall>k. k \<notin> fst ` set items \<longrightarrow> fst (update_traits T store items) k = store k)
 \<and> snd (update_traits T store items) = fst (update_traits T store items)"
proof -
  define init :: "'a merge_state" where
    "init = \<lparr>current_traits = store, keys_to_delete = [], new_traits = [], updated_traits = []\<rparr>"
  have fin: "fst (update_traits T store its) =
      bulk_create_ignore_conflicts (new_traits (update_traits_loop T its init))
        (bulk_update (BULK_UPDATE_FIELDS T) (current_traits (update_traits_loop T its init))
           (updated_traits (update_traits_loop T its init))
           (delete_keys (keys_to_delete (update_traits_loop T its init)) store))" for its
    by (simp add: update_traits_def Let_def init_def)
  have both: "update_traits T store its = (fst (update_traits T store its), fst (update_traits T store its))" for its
    by (simp add: update_traits_def Let_def)
  have new_fresh: "store k = None" if "k \<in> fst ` set (new_traits (update_traits_loop T its init))" for k its
    using loop_new_traits[OF that] by (simp add: init_def)
  have new_items: "k \<in> fst ` set its" if "k \<in> fst ` set (new_traits (update_traits_loop T its init))" for k its
    using loop_new_traits[OF that] by (simp add: init_def)
  have upd_items: "k \<in> fst ` set its" if "k \<in> set (updated_traits (update_traits_loop T its init))" for k its
    using loop_updated_traits[OF that] by (simp add: init_def)
  have del_keys: "set (keys_to_delete (update_traits_loop T its init)) = {k. (k, None) \<in> set its}" for its
    unfolding init_def by (rule loop_deleted_keys)
  have 1: "fst (update_traits T store items) k = None"
    if "store k \<noteq> None" "(k, None) \<in> set items" for k
  proof -
    have n: "k \<notin> fst ` set (new_traits (update_traits_loop T items init))"
    proof
      assume "k \<in> fst ` set (new_traits (update_traits_loop T items init))"
      then have "store k = None" by (rule new_fresh)
      with that(1) show False by simp
    qed
    have "k \<in> set (keys_to_delete (update_traits_loop T items init))"
      using that(2) by (simp add: del_keys)
    then have d: "delete_keys (keys_to_delete (update_traits_loop T items init)) store k = None"
      by (simp add: delete_keys_conv)
    have "fst (update_traits T store items) k
        = bulk_update (BULK_UPDATE_FIELDS T) (current_traits (update_traits_loop T items init))
            (updated_traits (update_traits_loop T items init))
            (delete_keys (keys_to_delete (update_traits_loop T items init)) store) k"
      unfolding fin by (rule bulk_create_ignore_conflicts_other[OF n])
    also have "\<dots> = None"
      unfolding bulk_update_None by (rule d)
    finally show ?thesis .
  qed
  have 3: "fst (update_traits T store items) k = store k" if "k \<notin> fst ` set items" for k
  proof -
    have a: "k \<notin> fst ` set (new_traits (update_traits_loop T items init))"
      using new_items that by blast
    have b: "k \<notin> set (updated_traits (update_traits_loop T items init))"
      using upd_items that by blast
    have c: "k \<notin> set (keys_to_delete (update_traits_loop T items init))"
    proof
      assume "k \<in> set (keys_to_delete (update_traits_loop T items init))"
      then have "(k, None) \<in> set items" by (simp add: del_keys)
      then have "k \<in> fst ` set items" by (rule rev_image_eqI) simp
      with that show False by simp
    qed
    have "fst (update_traits T store items) k
        = bulk_update (BULK_UPDATE_FIELDS T) (current_traits (update_traits_loop T items init))
            (updated_traits (update_traits_loop T items init))
            (delete_keys (keys_to_delete (update_traits_loop T items init)) store) k"
      unfolding fin by (rule bulk_create_ignore_conflicts_other[OF a])
    also have "\<dots> = delete_keys (keys_to_delete (update_traits_loop T items init)) store k"
      by (rule bulk_update_other[OF b])
    also have "\<dots> = store k"
      using c by (simp add: delete_keys_conv)
    finally show ?thesis .
  qed
  have 2: "update_traits T store (xs @ (k, None) # ys) = update_traits T store (xs @ ys)"
    if "store k = None" for k xs ys
  proof -
    let ?a = "update_traits_loop T (xs @ (k, None) # ys) init"
    let ?b = "update_traits_loop T (xs @ ys) init"
    let ?m = "update_traits_loop T xs init"
    have a: "?a = update_traits_loop T ys (?m\<lparr>keys_to_delete := keys_to_delete ?m @ [k]\<rparr>)"
      by (simp add: update_traits_loop_append)
    have b: "?b = update_traits_loop T ys ?m"
      by (simp add: update_traits_loop_append)
    have same: "?a\<lparr>keys_to_delete := []\<rparr> = ?b\<lparr>keys_to_delete := []\<rparr>"
      unfolding a b by (rule loop_ignores_keys_to_delete)
    have cur: "current_traits ?a = current_traits ?b"
      using arg_cong[OF same, of current_traits] by simp
    have new: "new_traits ?a = new_traits ?b"
      using arg_cong[OF same, of new_traits] by simp
    have upd: "updated_traits ?a = updated_traits ?b"
      using arg_cong[OF same, of updated_traits] by simp
    have dk: "set (keys_to_delete ?a) = insert k (set (keys_to_delete ?b))"
      by (auto simp: del_keys)
    have del: "delete_keys (keys_to_delete ?a) store = delete_keys (keys_to_delete ?b) store"
      using that by (auto simp: delete_keys_conv dk)
    have "fst (update_traits T store (xs @ (k, None) # ys)) = fst (update_traits T store (xs @ ys))"
      unfolding fin cur new upd del ..
    then show ?thesis
      using both[of "xs @ (k, None) # ys"] both[of "xs @ ys"] by simp
  qed
  have 4: "snd (update_traits T store items) = fst (update_traits T store items)"
    by (simp add: update_traits_def Let_def)
  show ?thesis
  proof (intro conjI allI impI)
    fix k assume "store k \<noteq> None \<and> (k, None) \<in> set items"
    then show "fst (update_traits T store items) k = None" using 1 by blast
  next
    fix k xs ys assume "store k = None"
    then show "update_traits T store (xs @ (k, None) # ys) = update_traits T store (xs @ ys)"
      by (rule 2)
  next
    fix k assume "k \<notin> fst ` set items"
    then show "fst (update_traits T store items) k = store k" by (rule 3)
  next
    show "snd (update_traits T store items) = fst (update_traits T store items)" by (rule 4)
  qed
qed


theorem update_traits_null_delete_witness:
  "ex_store ''a'' \<noteq> None
   \<and> fst (update_traits ex_Trait ex_store [(''a'', None), (''zz'', None)]) ''a'' = None
   \<and> fst (update_traits ex_Trait ex_store [(''a'', None), (''zz'', None)]) ''b'' = ex_store ''b''
   \<and> ex_store ''zz'' = None
   \<and> update_traits ex_Trait ex_store [(''a'', None), (''zz'', None)]
       = update_traits ex_Trait ex_store [(''a'', None)]
   \<and> snd (update_traits ex_Trait ex_store [(''a'', None), (''zz'', None)]) ''b''
       = Some (ex_generate_trait_value_data ''2'')"
proof -
  note merge = update_traits_null_delete
    [of ex_store "[(''a'', None), (''zz'', None)]" ex_Trait]
  note deleted = merge [THEN conjunct1, rule_format]
  note no_op = merge [THEN conjunct2, THEN conjunct1, rule_format]
  note kept = merge [THEN conjunct2, THEN conjunct2, THEN conjunct1, rule_format]
  note returned = merge [THEN conjunct2, THEN conjunct2, THEN conjunct2]
  have stored: "ex_store ''a'' \<noteq> None" "ex_store ''zz'' = None"
      "ex_store ''b'' = Some (ex_generate_trait_value_data ''2'')"
    by (simp_all add: ex_store_def)
  have a: "fst (update_traits ex_Trait ex_store [(''a'', None), (''zz'', None)]) ''a'' = None"
    by (rule deleted) (simp add: stored(1))
  have b: "fst (update_traits ex_Trait ex_store [(''a'', None), (''zz'', None)]) ''b'' = ex_store ''b''"
    by (rule kept) simp
  have "update_traits ex_Trait ex_store ([(''a'', None)] @ (''zz'', None) # [])
       = update_traits ex_Trait ex_store ([(''a'', None)] @ [])"
    by (rule no_op) (rule stored(2))
  then have noop: "update_traits ex_Trait ex_store [(''a'', None), (''zz'', None)]
       = update_traits ex_Trait ex_store [(''a'', None)]"
    by simp
  have ret: "snd (update_traits ex_Trait ex_store [(''a'', None), (''zz'', None)]) ''b''
       = Some (ex_generate_trait_value_data ''2'')"
    unfolding returned b by (rule stored(3))
  from stored(1,2) a b noop ret show ?thesis by (intro conjI)
qed

section \<open>Properties: cloning\<close>

lemma fold_max_ge: "(a::int) \<le> fold max ids a"
proof (induction ids arbitrary: a)
  case Nil
  show ?case by simp
next
  case (Cons x xs)
  have "a \<le> max x a" by simp
  also have "\<dots> \<le> fold max xs (max x a)" by (rule Cons.IH)
  finally show ?case by simp
qed

lemma fold_max_mem: "(x::int) \<in> set ids \<Longrightarrow> x \<le> fold max ids a"
proof (induction ids arbitrary: a)
  case Nil
  then show ?case by simp
next
  case (Cons y ys)
  show ?case
  proof (cases "x = y")
    case True
    have "x \<le> max y a" using True by simp
    also have "\<dots> \<le> fold max ys (max y a)" by (rule fold_max_ge)
    finally show ?thesis by simp
  next
    case False
    with Cons.prems have "x \<in> set ys" by simp
    from Cons.IH[OF this] show ?thesis by simp
  qed
qed

lemma next_id_fresh: "next_id ids \<notin> set ids"
proof
  assume "next_id ids \<in> set ids"
  from fold_max_mem[OF this, of 0] show False by (simp add: next_id_def)
qed

lemma clone_feature_segments_effect:
  "\<exists>news. feature_segments (clone_feature_segments srcs cloned d) = feature_segments d @ news
     \<and> map (\<lambda>f. f\<lparr>fseg_id := 0\<rparr>) news
         = map (\<lambda>f. f\<lparr>fseg_id := 0, fseg_environment := env_id cloned\<rparr>) srcs
     \<and> environments (clone_feature_segments srcs cloned d) = environments d
     \<and> feature_states (clone_feature_segments srcs cloned d) = feature_states d"
proof (induction srcs arbitrary: d)
  case Nil
  show ?case by simp
next
  case (Cons f rest)
  let ?new = "f\<lparr>fseg_id := next_id (map fseg_id (feature_segments d)), fseg_environment := env_id cloned\<rparr>"
  let ?d1 = "FeatureSegment_clone f cloned d"
  have d1: "feature_segments ?d1 = feature_segments d @ [?new]"
      "environments ?d1 = environments d" "feature_states ?d1 = feature_states d"
    by (simp_all add: FeatureSegment_clone_def)
  from Cons.IH[of ?d1] obtain news where
    n: "feature_segments (clone_feature_segments rest cloned ?d1) = feature_segments ?d1 @ news"
       "map (\<lambda>f. f\<lparr>fseg_id := 0\<rparr>) news
         = map (\<lambda>f. f\<lparr>fseg_id := 0, fseg_environment := env_id cloned\<rparr>) rest"
       "environments (clone_feature_segments rest cloned ?d1) = environments ?d1"
       "feature_states (clone_feature_segments rest cloned ?d1) = feature_states ?d1"
    by blast
  have "feature_segments (clone_feature_segments (f # rest) cloned d) = feature_segments d @ (?new # news)"
    using n(1) d1(1) by simp
  moreover have "map (\<lambda>f. f\<lparr>fseg_id := 0\<rparr>) (?new # news)
         = map (\<lambda>f. f\<lparr>fseg_id := 0, fseg_environment := env_id cloned\<rparr>) (f # rest)"
    using n(2) by simp
  moreover have "environments (clone_feature_segments (f # rest) cloned d) = environments d"
      "feature_states (clone_feature_segments (f # rest) cloned d) = feature_states d"
    using n(3,4) d1(2,3) by simp_all
  ultimately show ?case by blast
qed

lemma clone_feature_states_effect:
  "\<exists>news. feature_states (clone_feature_states srcs cloned d) = feature_states d @ news
     \<and> map (\<lambda>s. s\<lparr>fs_id := 0\<rparr>) news
         = map (\<lambda>s. s\<lparr>fs_id := 0, fs_environment := env_id cloned\<rparr>) srcs
     \<and> environments (clone_feature_states srcs cloned d) = environments d
     \<and> feature_segments (clone_feature_states srcs cloned d) = feature_segments d"
proof (induction srcs arbitrary: d)
  case Nil
  show ?case by simp
next
  case (Cons f rest)
  let ?new = "f\<lparr>fs_id := next_id (map fs_id (feature_states d)), fs_environment := env_id cloned,
      live_from := live_from f\<rparr>"
  let ?d1 = "FeatureState_clone f cloned (live_from f) d"
  have d1: "feature_states ?d1 = feature_states d @ [?new]"
      "environments ?d1 = environments d" "feature_segments ?d1 = feature_segments d"
    by (simp_all add: FeatureState_clone_def)
  from Cons.IH[of ?d1] obtain news where
    n: "feature_states (clone_feature_states rest cloned ?d1) = feature_states ?d1 @ news"
       "map (\<lambda>s. s\<lparr>fs_id := 0\<rparr>) news
         = map (\<lambda>s. s\<lparr>fs_id := 0, fs_environment := env_id cloned\<rparr>) rest"
       "environments (clone_feature_states rest cloned ?d1) = environments ?d1"
       "feature_segments (clone_feature_states rest cloned ?d1) = feature_segments ?d1"
    by blast
  have "feature_states (clone_feature_states (f # rest) cloned d) = feature_states d @ (?new # news)"
    using n(1) d1(1) by simp
  moreover have "map (\<lambda>s. s\<lparr>fs_id := 0\<rparr>) (?new # news)
         = map (\<lambda>s. s\<lparr>fs_id := 0, fs_environment := env_id cloned\<rparr>) (f # rest)"
    using n(2) by simp
  moreover have "environments (clone_feature_states (f # rest) cloned d) = environments d"
      "feature_segments (clone_feature_states (f # rest) cloned d) = feature_segments d"
    using n(3,4) d1(2,3) by simp_all
  ultimately show ?case by blast
qed

text \<open>
  C8, as stated, fails: \<^verbatim>\<open>clone\<close> does not produce a new environment for every call.
  With an \<^verbatim>\<open>api_key\<close> that an environment already has, here the source's own,
  \<^verbatim>\<open>save\<close> raises and nothing is cloned.
\<close>

theorem clone_taken_api_key_counterexample:
  "api_key ex_environment = ''abc''
   \<and> environments ex_db = [ex_environment]
   \<and> clone ex_environment ''Copy'' (Some ''abc'') ''h4sh'' ex_db = Inl IntegrityError"
  by (simp add: clone_def Let_def ex_db_def ex_defs)

text \<open>
  C8, amended. When no environment has the new key (the \<^verbatim>\<open>api_key\<close> argument, or the
  generated hash when the argument is missing or empty), \<^verbatim>\<open>clone\<close> adds one new
  environment with that key; the feature segments it adds are copies, in the new
  environment, of exactly the source environment's feature segments; the feature states
  it adds are copies, in the new environment, of exactly the source environment's
  feature states whose identity is null; so no added feature state has an identity, and
  existing rows are left as they are. When an environment has the key, \<^verbatim>\<open>clone\<close>
  raises \<^verbatim>\<open>IntegrityError\<close>.
\<close>

theorem clone_copies_unscoped_states:
  "(case clone self name api_key_arg hash d of
      Inl e \<Rightarrow>
        e = IntegrityError
        \<and> (case api_key_arg of None \<Rightarrow> hash | Some k \<Rightarrow> if k \<noteq> [] then k else hash)
            \<in> set (map api_key (environments d))
    | Inr (cloned, d') \<Rightarrow>
        api_key cloned = (case api_key_arg of None \<Rightarrow> hash | Some k \<Rightarrow> if k \<noteq> [] then k else hash)
      \<and> api_key cloned \<notin> set (map api_key (environments d))
      \<and> env_id cloned \<notin> set (map env_id (environments d))
      \<and> environments d' = environments d @ [cloned]
      \<and> take (length (feature_segments d)) (feature_segments d') = feature_segments d
      \<and> map (\<lambda>f. f\<lparr>fseg_id := 0\<rparr>) (drop (length (feature_segments d)) (feature_segments d'))
          = map (\<lambda>f. f\<lparr>fseg_id := 0, fseg_environment := env_id cloned\<rparr>)
              (filter (\<lambda>f. fseg_environment f = env_id self) (feature_segments d))
      \<and> take (length (feature_states d)) (feature_states d') = feature_states d
      \<and> map (\<lambda>s. s\<lparr>fs_id := 0\<rparr>) (drop (length (feature_states d)) (feature_states d'))
          = map (\<lambda>s. s\<lparr>fs_id := 0, fs_environment := env_id cloned\<rparr>)
              (filter (\<lambda>s. fs_environment s = env_id self \<and> fs_identity s = None)
                 (feature_states d))
      \<and> (\<forall>s \<in> set (drop (length (feature_states d)) (feature_states d')).
            fs_identity s = None))"
proof -
  define key where
    "key = (case api_key_arg of None \<Rightarrow> hash | Some k \<Rightarrow> if k \<noteq> [] then k else hash)"
  define cloned where "cloned = self\<lparr>env_id := next_id (map env_id (environments d)),
                        env_name := name,
                        api_key := (case api_key_arg of
                                      None \<Rightarrow> hash
                                    | Some k \<Rightarrow> if k \<noteq> [] then k else hash)\<rparr>"
  define d1 where "d1 = d\<lparr>environments := environments d @ [cloned]\<rparr>"
  define segs where "segs = filter (\<lambda>f. fseg_environment f = env_id self) (feature_segments d)"
  define d2 where "d2 = clone_feature_segments segs cloned d1"
  define sts where
    "sts = filter (\<lambda>s. fs_environment s = env_id self \<and> fs_identity s = None) (feature_states d)"
  define d3 where "d3 = clone_feature_states sts cloned d2"
  have key_cloned: "api_key cloned = key"
    by (simp add: cloned_def key_def)
  obtain news2 where n2: "feature_segments d2 = feature_segments d @ news2"
      "map (\<lambda>f. f\<lparr>fseg_id := 0\<rparr>) news2
         = map (\<lambda>f. f\<lparr>fseg_id := 0, fseg_environment := env_id cloned\<rparr>) segs"
      "environments d2 = environments d @ [cloned]" "feature_states d2 = feature_states d"
    using clone_feature_segments_effect[of segs cloned d1] unfolding d2_def d1_def by auto
  obtain news3 where n3: "feature_states d3 = feature_states d @ news3"
      "map (\<lambda>s. s\<lparr>fs_id := 0\<rparr>) news3
         = map (\<lambda>s. s\<lparr>fs_id := 0, fs_environment := env_id cloned\<rparr>) sts"
      "environments d3 = environments d @ [cloned]" "feature_segments d3 = feature_segments d @ news2"
    using clone_feature_states_effect[of sts cloned d2] n2 unfolding d3_def by auto
  have eq: "clone self name api_key_arg hash d
      = (if key \<in> set (map api_key (environments d)) then Inl IntegrityError
         else Inr (cloned, d3))"
  proof -
    have a: "filter (\<lambda>fseg. fseg_environment fseg = env_id self) (feature_segments d1) = segs"
      by (simp add: segs_def d1_def)
    have b: "filter (\<lambda>fs. fs_environment fs = env_id self \<and> fs_identity fs = None)
        (feature_states d2) = sts"
      by (simp add: sts_def n2(4))
    show ?thesis
      unfolding clone_def Let_def cloned_def[symmetric] d1_def[symmetric] a d2_def[symmetric] b
        d3_def[symmetric] key_cloned ..
  qed
  have fresh: "env_id cloned \<notin> set (map env_id (environments d))"
    unfolding cloned_def using next_id_fresh[of "map env_id (environments d)"] by simp
  have ident: "fs_identity s = None" if "s \<in> set news3" for s
  proof -
    from that have "s\<lparr>fs_id := 0\<rparr> \<in> set (map (\<lambda>s. s\<lparr>fs_id := 0\<rparr>) news3)" by simp
    then obtain s' where "s' \<in> set sts"
        "s\<lparr>fs_id := 0\<rparr> = s'\<lparr>fs_id := 0, fs_environment := env_id cloned\<rparr>"
      unfolding n3(2) by auto
    then have "fs_identity (s\<lparr>fs_id := 0\<rparr>) = fs_identity s'" "fs_identity s' = None"
      by (simp_all add: sts_def)
    then show ?thesis by simp
  qed
  show ?thesis
  proof (cases "key \<in> set (map api_key (environments d))")
    case True
    then have "clone self name api_key_arg hash d = Inl IntegrityError"
      by (simp only: eq if_True)
    with True show ?thesis
      by (simp add: key_def)
  next
    case False
    then have run: "clone self name api_key_arg hash d = Inr (cloned, d3)"
      by (simp only: eq if_False)
    have free: "api_key cloned \<notin> set (map api_key (environments d))"
      unfolding key_cloned by (rule False)
    show ?thesis
      unfolding run
      using key_cloned[unfolded key_def] free fresh n2 n3 ident
      by (simp add: segs_def sts_def)
  qed
qed

theorem clone_copies_unscoped_states_witness:
  "fs_identity ex_identity_override \<noteq> None
   \<and> fs_environment ex_identity_override = env_id ex_environment
   \<and> ''h4sh'' \<notin> set (map api_key (environments ex_db))
   \<and> clone ex_environment ''Copy'' None ''h4sh'' ex_db
      = Inr (ex_environment\<lparr>env_id := 2, env_name := ''Copy'', api_key := ''h4sh''\<rparr>,
         \<lparr>environments = [ex_environment,
              ex_environment\<lparr>env_id := 2, env_name := ''Copy'', api_key := ''h4sh''\<rparr>],
          feature_segments =
             [ex_feature_segment, ex_feature_segment\<lparr>fseg_id := 4, fseg_environment := 2\<rparr>],
          feature_states = ex_table @ [ex_default\<lparr>fs_id := 4, fs_environment := 2\<rparr>,
                     ex_segment_override\<lparr>fs_id := 5, fs_environment := 2\<rparr>]\<rparr>)
   \<and> fs_identity (ex_default\<lparr>fs_id := 4, fs_environment := 2\<rparr>) = None
   \<and> fs_identity (ex_segment_override\<lparr>fs_id := 5, fs_environment := 2\<rparr>) = None"
proof -
  have run: "clone ex_environment ''Copy'' None ''h4sh'' ex_db
      = Inr (ex_environment\<lparr>env_id := 2, env_name := ''Copy'', api_key := ''h4sh''\<rparr>,
         \<lparr>environments = [ex_environment,
              ex_environment\<lparr>env_id := 2, env_name := ''Copy'', api_key := ''h4sh''\<rparr>],
          feature_segments =
             [ex_feature_segment, ex_feature_segment\<lparr>fseg_id := 4, fseg_environment := 2\<rparr>],
          feature_states = ex_table @ [ex_default\<lparr>fs_id := 4, fs_environment := 2\<rparr>,
                     ex_segment_override\<lparr>fs_id := 5, fs_environment := 2\<rparr>]\<rparr>)"
    by (simp add: clone_def Let_def ex_db_def ex_defs next_id_def FeatureSegment_clone_def
        FeatureState_clone_def)
  have scoped: "fs_identity ex_identity_override \<noteq> None
      \<and> fs_environment ex_identity_override = env_id ex_environment
      \<and> ''h4sh'' \<notin> set (map api_key (environments ex_db))"
    by (simp add: ex_defs ex_db_def)
  from clone_copies_unscoped_states
    [where self = ex_environment and name = "''Copy''" and api_key_arg = None
       and hash = "''h4sh''" and d = ex_db, unfolded run]
  have "fs_identity (ex_default\<lparr>fs_id := 4, fs_environment := 2\<rparr>) = None
      \<and> fs_identity (ex_segment_override\<lparr>fs_id := 5, fs_environment := 2\<rparr>) = None"
    by (simp add: ex_db_def ex_table_def)
  with run scoped show ?thesis by blast
qed

section \<open>Properties: generating traits\<close>

lemma build_trait_models_keys: "map fst (build_trait_models T xs) = map fst xs"
  by (induction T xs rule: build_trait_models.induct) simp_all

lemma build_trait_models_mem:
  "(k, t) \<in> set (build_trait_models T xs) \<Longrightarrow>
     \<exists>v. (k, v) \<in> set xs \<and> t = generate_trait_value_data T v"
  by (induction T xs rule: build_trait_models.induct) auto

lemma remove_null_values_mem:
  "(k, v) \<in> set (remove_null_values items) \<longleftrightarrow> (k, Some v) \<in> set items"
  by (induction items rule: remove_null_values.induct) auto

lemma remove_null_values_keys:
  "map fst (remove_null_values items) = map fst (filter (\<lambda>item. snd item \<noteq> None) items)"
  by (induction items rule: remove_null_values.induct) simp_all

lemma bulk_create_changes:
  "bulk_create models store = Inr store' \<Longrightarrow> store' k \<noteq> store k \<Longrightarrow>
     \<exists>t. (k, t) \<in> set models \<and> store' k = Some t"
proof (induction models store rule: bulk_create.induct)
  case (1 store)
  then show ?case by simp
next
  case (2 k0 t0 rest store)
  from "2.prems"(1) have free: "store k0 = None"
    and run: "bulk_create rest (store(k0 \<mapsto> t0)) = Inr store'"
    by (simp_all split: if_splits)
  show ?case
  proof (cases "store' k = (store(k0 \<mapsto> t0)) k")
    case True
    with "2.prems"(2) have "k = k0" by (auto split: if_splits)
    with True show ?thesis by auto
  next
    case False
    from "2.IH"[OF _ run False] free obtain t where "(k, t) \<in> set rest" "store' k = Some t"
      by auto
    then show ?thesis by auto
  qed
qed

lemma generate_traits_Inr:
  assumes "generate_traits T store items persist = Inr (store', models)"
  shows "models = build_trait_models T (remove_null_values items)
       \<and> (if persist then bulk_create models store = Inr store' else store' = store)"
proof (cases persist)
  case False
  with assms show ?thesis by (simp add: generate_traits_def)
next
  case True
  show ?thesis
  proof (cases "bulk_create (build_trait_models T (remove_null_values items)) store")
    case (Inl e)
    with assms True show ?thesis by (simp add: generate_traits_def)
  next
    case (Inr s)
    with assms True show ?thesis by (simp add: generate_traits_def)
  qed
qed

text \<open>
  C9. \<^verbatim>\<open>generate_traits\<close> drops the items with a null value before it builds the
  trait models: the returned list has one trait per item with a value, in their order,
  each built from its key and its value, and none from a null. What it persists is this
  list: a stored trait that changed was built from an item with a value. Without
  \<^verbatim>\<open>persist\<close> the method stores nothing and cannot fail.
\<close>

theorem generate_traits_drops_null:
  fixes T :: "('v, 'a) Trait" and store :: "'a trait_store"
  shows
  "generate_traits T store items False
     = Inr (store, build_trait_models T (remove_null_values items))
   \<and> (\<forall>store' models. generate_traits T store items persist = Inr (store', models) \<longrightarrow>
         models = build_trait_models T (remove_null_values items)
       \<and> map fst models = map fst (filter (\<lambda>item. snd item \<noteq> None) items)
       \<and> (\<forall>k t. (k, t) \<in> set models \<longrightarrow>
             (\<exists>v. (k, Some v) \<in> set items \<and> t = generate_trait_value_data T v))
       \<and> (\<forall>k. store' k \<noteq> store k \<longrightarrow>
             persist \<and> (\<exists>v. (k, Some v) \<in> set items
                            \<and> store' k = Some (generate_trait_value_data T v))))"
proof (intro conjI allI impI)
  show "generate_traits T store items False
     = Inr (store, build_trait_models T (remove_null_values items))"
    by (simp add: generate_traits_def)
next
  fix store' models
  assume run: "generate_traits T store items persist = Inr (store', models)"
  note parts = generate_traits_Inr[OF run]
  from parts show models: "models = build_trait_models T (remove_null_values items)"
    by (rule conjunct1)
  then show "map fst models = map fst (filter (\<lambda>item. snd item \<noteq> None) items)"
    by (simp only: build_trait_models_keys remove_null_values_keys)
  have built: "\<exists>v. (k, Some v) \<in> set items \<and> t = generate_trait_value_data T v"
    if "(k, t) \<in> set models" for k t
  proof -
    from that have "(k, t) \<in> set (build_trait_models T (remove_null_values items))"
      by (simp only: models)
    from build_trait_models_mem[OF this] obtain v
      where v: "(k, v) \<in> set (remove_null_values items)" "t = generate_trait_value_data T v"
      by blast
    from v(1) have "(k, Some v) \<in> set items" by (simp only: remove_null_values_mem)
    with v(2) show ?thesis by blast
  qed
  {
    fix k t assume "(k, t) \<in> set models"
    then show "\<exists>v. (k, Some v) \<in> set items \<and> t = generate_trait_value_data T v"
      by (rule built)
  }
  {
    fix k assume changed: "store' k \<noteq> store k"
    show persist: persist
    proof (rule ccontr)
      assume no: "\<not> persist"
      from parts
      have "if persist then bulk_create models store = Inr store' else store' = store"
        by (rule conjunct2)
      then have "store' = store" by (simp only: if_not_P[OF no])
      with changed show False by simp
    qed
    from parts
    have "if persist then bulk_create models store = Inr store' else store' = store"
      by (rule conjunct2)
    then have "bulk_create models store = Inr store'"
      by (simp only: if_P[OF persist])
    from bulk_create_changes[OF this changed] obtain t
      where t: "(k, t) \<in> set models" "store' k = Some t" by blast
    from built[OF t(1)] obtain v
      where "(k, Some v) \<in> set items" "t = generate_trait_value_data T v" by blast
    with t(2) show "\<exists>v. (k, Some v) \<in> set items
        \<and> store' k = Some (generate_trait_value_data T v)"
      by blast
  }
qed

theorem generate_traits_drops_null_witness:
  "generate_traits ex_Trait Map.empty [(''a'', Some ''1''), (''n'', None)] True
     = Inr ([''a'' \<mapsto> ex_generate_trait_value_data ''1''],
            [(''a'', ex_generate_trait_value_data ''1'')])
   \<and> map fst [(''a'', ex_generate_trait_value_data ''1'')]
     = map fst (filter (\<lambda>item. snd item \<noteq> None) [(''a'', Some ''1''), (''n'', None)])"
proof -
  have run: "generate_traits ex_Trait Map.empty [(''a'', Some ''1''), (''n'', None)] True
     = Inr ([''a'' \<mapsto> ex_generate_trait_value_data ''1''],
            [(''a'', ex_generate_trait_value_data ''1'')])"
    by (simp add: generate_traits_def ex_Trait_def)
  from generate_traits_drops_null
    [where T = ex_Trait and store = Map.empty and items = "[(''a'', Some ''1''), (''n'', None)]"
       and persist = True, THEN conjunct2, rule_format, OF run]
  have "map fst [(''a'', ex_generate_trait_value_data ''1'')]
     = map fst (filter (\<lambda>item. snd item \<noteq> None) [(''a'', Some ''1''), (''n'', None)])"
    by (rule conjunct2 [THEN conjunct1])
  with run show ?thesis by (rule conjI)
qed

section \<open>Properties: trait persistence at the API boundary\<close>




end
